theory Spec2Isabelle
  imports Complex_Main "HOL-Library.Word" "HOL-Library.Multiset"
begin

section \<open>JavaScript strings\<close>

text \<open>
  A JavaScript string is a sequence of UTF-16 code units. \<open>length\<close> counts code units,
  as \<open>String.prototype.length\<close> does. Messages of errors and names of remote procedures
  are plain ASCII and are kept as HOL strings.
\<close>

type_synonym code_unit = "16 word"
type_synonym js_string = "code_unit list"

text \<open>
  White space as \<open>String.prototype.trim\<close> and the regular expression class \<open>\s\<close> see it:
  the WhiteSpace and LineTerminator productions of ECMAScript.
\<close>

definition is_ws :: "code_unit \<Rightarrow> bool" where
  "is_ws u \<longleftrightarrow>
     u = 0x09 \<or> u = 0x0A \<or> u = 0x0B \<or> u = 0x0C \<or> u = 0x0D \<or> u = 0x20 \<or> u = 0xA0 \<or>
     u = 0x1680 \<or> (0x2000 \<le> u \<and> u \<le> 0x200A) \<or> u = 0x2028 \<or> u = 0x2029 \<or>
     u = 0x202F \<or> u = 0x205F \<or> u = 0x3000 \<or> u = 0xFEFF"

text \<open>\<open>s.trim()\<close>\<close>

definition trim :: "js_string \<Rightarrow> js_string" where
  "trim s = rev (dropWhile is_ws (rev (dropWhile is_ws s)))"

text \<open>\<open>xs.join(sep)\<close>\<close>

fun join :: "js_string \<Rightarrow> js_string list \<Rightarrow> js_string" where
  "join sep [] = []"
| "join sep [x] = x"
| "join sep (x # y # ys) = x @ sep @ join sep (y # ys)"

definition is_high_surrogate :: "code_unit \<Rightarrow> bool" where
  "is_high_surrogate u \<longleftrightarrow> 0xD800 \<le> u \<and> u \<le> 0xDBFF"

definition is_low_surrogate :: "code_unit \<Rightarrow> bool" where
  "is_low_surrogate u \<longleftrightarrow> 0xDC00 \<le> u \<and> u \<le> 0xDFFF"

text \<open>
  \<open>Array.from(input)\<close> runs the string iterator: one string per code point, a surrogate
  pair staying together and a lone surrogate standing alone.
\<close>

fun Array_from :: "js_string \<Rightarrow> js_string list" where
  "Array_from [] = []"
| "Array_from [u] = [[u]]"
| "Array_from (u # v # rest) =
     (if is_high_surrogate u \<and> is_low_surrogate v then [u, v] # Array_from rest
      else [u] # Array_from (v # rest))"

text \<open>\<open>char.codePointAt(0)\<close>; \<open>None\<close> is \<open>undefined\<close>.\<close>

fun codePointAt0 :: "js_string \<Rightarrow> nat option" where
  "codePointAt0 [] = None"
| "codePointAt0 [u] = Some (unat u)"
| "codePointAt0 (u # v # rest) =
     (if is_high_surrogate u \<and> is_low_surrogate v
      then Some (0x10000 + (unat u - 0xD800) * 0x400 + (unat v - 0xDC00))
      else Some (unat u))"

section \<open>Text normalizer: \<open>sanitizeText\<close> (src/utils/index.ts, lines 3 to 27)\<close>

text \<open>The callback of \<open>.map\<close> on the characters.\<close>

definition sanitize_char :: "js_string \<Rightarrow> js_string" where
  "sanitize_char char =
     (case codePointAt0 char of
        None \<Rightarrow> []
      | Some codePoint \<Rightarrow>
          if (codePoint \<le> 31 \<and> codePoint \<noteq> 9 \<and> codePoint \<noteq> 10 \<and> codePoint \<noteq> 13) \<or>
             (codePoint \<ge> 0x7f \<and> codePoint \<le> 0x9f)
          then [0x20]
          else char)"

text \<open>\<open>.replace\<close> of every U+FFFD by a space (the regular expression has the \<open>g\<close> flag).\<close>

definition replace_fffd :: "js_string \<Rightarrow> js_string" where
  "replace_fffd s = map (\<lambda>u. if u = 0xFFFD then 0x20 else u) s"

definition sanitizeText :: "js_string \<Rightarrow> js_string" where
  "sanitizeText input =
     (if input = [] then []
      else trim (replace_fffd (join [] (map sanitize_char (Array_from input)))))"

text \<open>
  The words of the specification, for comparison: control characters are \<^emph>\<open>removed\<close>, the
  replacement character becomes a space, the result is trimmed.
\<close>

definition is_c0_control :: "code_unit \<Rightarrow> bool" where
  "is_c0_control u \<longleftrightarrow> u \<le> 0x1F \<and> u \<noteq> 0x09 \<and> u \<noteq> 0x0A \<and> u \<noteq> 0x0D"

definition is_c1_control :: "code_unit \<Rightarrow> bool" where
  "is_c1_control u \<longleftrightarrow> 0x80 \<le> u \<and> u \<le> 0x9F"

definition normalize_by_removal :: "js_string \<Rightarrow> js_string" where
  "normalize_by_removal raw =
     trim (map (\<lambda>u. if u = 0xFFFD then 0x20 else u)
             (filter (\<lambda>u. \<not> is_c0_control u \<and> \<not> is_c1_control u) raw))"

text \<open>What the code does to one code unit: DEL and the C1 range count as control.\<close>

definition is_scrubbed :: "code_unit \<Rightarrow> bool" where
  "is_scrubbed u \<longleftrightarrow> is_c0_control u \<or> u = 0x7F \<or> is_c1_control u \<or> u = 0xFFFD"

definition scrub :: "code_unit \<Rightarrow> code_unit" where
  "scrub u = (if is_scrubbed u then 0x20 else u)"

text \<open>The first of the two passes alone: the callback of \<open>.map\<close>, per code unit.\<close>

definition scrub_control :: "code_unit \<Rightarrow> code_unit" where
  "scrub_control u = (if is_c0_control u \<or> u = 0x7F \<or> is_c1_control u then 0x20 else u)"

section \<open>Chunker: \<open>splitIntoChunks\<close> (src/utils/index.ts, lines 29 to 57)\<close>

text \<open>\<open>text.replace(/\r\n?/g, "\n")\<close>: a carriage return, with the line feed after it if
  there is one, becomes one line feed.\<close>

fun replace_crlf :: "js_string \<Rightarrow> js_string" where
  "replace_crlf [] = []"
| "replace_crlf [u] = [if u = 0x0D then 0x0A else u]"
| "replace_crlf (u # v # rest) =
     (if u = 0x0D \<and> v = 0x0A then 0x0A # replace_crlf rest
      else (if u = 0x0D then 0x0A else u) # replace_crlf (v # rest))"

text \<open>
  \<open>.split(/\n+/)\<close>: the pieces between the maximal runs of line feeds; a string that
  starts or ends with a line feed gives an empty first or last piece, and the empty string
  gives one empty piece. The first argument is the piece read so far.
\<close>

function split_newlines_from :: "js_string \<Rightarrow> js_string \<Rightarrow> js_string list" where
  "split_newlines_from piece [] = [piece]"
| "split_newlines_from piece (u # rest) =
     (if u = 0x0A then piece # split_newlines_from [] (dropWhile (\<lambda>v. v = 0x0A) rest)
      else split_newlines_from (piece @ [u]) rest)"
  by pat_completeness auto
termination
  by (relation "measure (\<lambda>(piece, s). length s)")
     (auto simp: less_Suc_eq_le length_dropWhile_le)

definition is_terminal :: "code_unit \<Rightarrow> bool" where
  "is_terminal u \<longleftrightarrow> u = 0x2E \<or> u = 0x21 \<or> u = 0x3F"

text \<open>
  \<open>.split(/(?<=[.!?])\s+/)\<close>: a separator is a maximal run of white space whose
  predecessor is one of \<open>.\<close>, \<open>!\<close>, \<open>?\<close>. The flag says whether the code unit just read
  is such a mark (the lookbehind); after a separator the code unit before the next position
  is white space, so the flag is off.
\<close>

function split_sentences_from :: "bool \<Rightarrow> js_string \<Rightarrow> js_string \<Rightarrow> js_string list" where
  "split_sentences_from after_mark piece [] = [piece]"
| "split_sentences_from after_mark piece (u # rest) =
     (if after_mark \<and> is_ws u
      then piece # split_sentences_from False [] (dropWhile is_ws rest)
      else split_sentences_from (is_terminal u) (piece @ [u]) rest)"
  by pat_completeness auto
termination
  by (relation "measure (\<lambda>(after_mark, piece, s). length s)")
     (auto simp: less_Suc_eq_le length_dropWhile_le)

text \<open>The sentence stream: \<open>paragraphs.flatMap(...)\<close>.\<close>

definition paragraphs_of :: "js_string \<Rightarrow> js_string list" where
  "paragraphs_of text = split_newlines_from [] (replace_crlf text)"

definition sentences_of :: "js_string \<Rightarrow> js_string list" where
  "sentences_of text =
     concat (map (\<lambda>p. filter (\<lambda>s. length s > 0) (map trim (split_sentences_from False [] p)))
               (paragraphs_of text))"

text \<open>One turn of the \<open>for\<close> loop over the sentences; the state is \<open>(chunks, current)\<close>.\<close>

definition pack_step :: "int \<Rightarrow> js_string \<Rightarrow> js_string list \<times> js_string \<Rightarrow> js_string list \<times> js_string" where
  "pack_step maxChunkSize sentence st =
     (case st of (chunks, current) \<Rightarrow>
        if length current = 0 then (chunks, sentence)
        else if int (length current) + 1 + int (length sentence) \<le> maxChunkSize
             then (chunks, current @ [0x20] @ sentence)
             else (chunks @ [current], sentence))"

definition splitIntoChunks :: "js_string \<Rightarrow> int \<Rightarrow> js_string list" where
  "splitIntoChunks text maxChunkSize =
     (case fold (pack_step maxChunkSize) (sentences_of text) ([], []) of
        (chunks, current) \<Rightarrow>
          if length (trim current) \<noteq> 0 then chunks @ [current] else chunks)"

text \<open>
  For the statements about chunks: the sentences merged into each chunk, kept apart. This
  is the loop above with every chunk held as the list of its sentences.
\<close>

definition group_step ::
  "int \<Rightarrow> js_string \<Rightarrow> js_string list list \<times> js_string list \<Rightarrow> js_string list list \<times> js_string list" where
  "group_step maxChunkSize sentence st =
     (case st of (groups, current) \<Rightarrow>
        if current = [] then (groups, [sentence])
        else if int (length (join [0x20] current)) + 1 + int (length sentence) \<le> maxChunkSize
             then (groups, current @ [sentence])
             else (groups @ [current], [sentence]))"

definition chunk_groups :: "js_string \<Rightarrow> int \<Rightarrow> js_string list list" where
  "chunk_groups text maxChunkSize =
     (case fold (group_step maxChunkSize) (sentences_of text) ([], []) of
        (groups, current) \<Rightarrow> if current \<noteq> [] then groups @ [current] else groups)"

text \<open>A string that is not empty and neither starts nor ends with white space.\<close>

definition clean :: "js_string \<Rightarrow> bool" where
  "clean s \<longleftrightarrow> s \<noteq> [] \<and> \<not> is_ws (hd s) \<and> \<not> is_ws (last s)"

section \<open>PDF reading order: the \<open>pagerender\<close> callback (src/utils/index.ts, lines 68 to 106)\<close>

text \<open>
  A JavaScript number is an IEEE 754 binary64 value. A finite one is a rational, and the
  subtraction of two of them is their exact difference rounded to the nearest binary64
  value, ties to even. The rounding is written out on the rationals: the exponent of the
  binade of \<open>x\<close> (at least \<open>-1022\<close>, where the subnormal numbers start), the spacing
  \<open>2 powi (e - 52)\<close> of the values there, and the nearest multiple of the spacing. A result
  of magnitude \<open>2 ^ 1024\<close> or more stands for an infinity: the code below looks only at its
  sign and at whether its absolute value is at most 2.5, and these are the same for both.
\<close>

text \<open>For \<open>x\<close> from 1 on: how often \<open>x\<close> can be halved before it drops below 2.\<close>

function halvings :: "rat \<Rightarrow> int" where
  "halvings x = (if 2 \<le> x then halvings (x / 2) + 1 else 0)"
  by pat_completeness auto
termination
proof (relation "measure (\<lambda>x. nat \<lfloor>x\<rfloor>)")
  show "wf (measure (\<lambda>x::rat. nat \<lfloor>x\<rfloor>))" by simp
next
  fix x :: rat
  assume x: "2 \<le> x"
  then have "x / 2 \<le> x - 1" by simp
  then have "\<lfloor>x / 2\<rfloor> \<le> \<lfloor>x - 1\<rfloor>" by (rule floor_mono)
  then have "\<lfloor>x / 2\<rfloor> < \<lfloor>x\<rfloor>" by simp
  moreover have "0 < \<lfloor>x\<rfloor>" using x by simp
  ultimately show "(x / 2, x) \<in> measure (\<lambda>x. nat \<lfloor>x\<rfloor>)" by simp
qed

declare halvings.simps [simp del]

text \<open>For positive \<open>x\<close>: the \<open>e\<close> with \<open>2 powi e \<le> x < 2 powi (e + 1)\<close>.\<close>

definition floor_log2 :: "rat \<Rightarrow> int" where
  "floor_log2 x =
     (if 1 \<le> x then halvings x
      else (let h = halvings (1 / x) in if 2 powi h = 1 / x then - h else - h - 1))"

definition round_half_even :: "rat \<Rightarrow> int" where
  "round_half_even t =
     (let f = \<lfloor>t\<rfloor>; r = t - of_int f
      in if r < 1 / 2 then f else if 1 / 2 < r then f + 1 else if even f then f else f + 1)"

definition round64 :: "rat \<Rightarrow> rat" where
  "round64 x =
     (if x = 0 then 0
      else (let e = max (floor_log2 \<bar>x\<bar>) (- 1022); q = 2 powi (e - 52)
            in of_int (round_half_even (x / q)) * q))"

text \<open>\<open>a - b\<close> on numbers, and the rationals that are finite binary64 values.\<close>

definition fsub :: "rat \<Rightarrow> rat \<Rightarrow> rat" where
  "fsub a b = round64 (a - b)"

definition is_binary64 :: "rat \<Rightarrow> bool" where
  "is_binary64 x \<longleftrightarrow> round64 x = x \<and> \<bar>x\<bar> < 2 ^ 1024"

text \<open>
  A text item of pdf.js carries its string and the six entries of its transform matrix;
  the last two are the anchor \<open>x\<close> and \<open>y\<close>.
\<close>

record TextItem =
  str :: js_string
  transform :: "rat \<times> rat \<times> rat \<times> rat \<times> rat \<times> rat"

record row =
  row_x :: rat
  row_y :: rat
  row_text :: js_string

record part =
  part_x :: rat
  part_text :: js_string

record line =
  line_y :: rat
  line_parts :: "part list"

definition row_of :: "TextItem \<Rightarrow> row" where
  "row_of item =
     (case transform item of (a, b, c, d, x, y) \<Rightarrow>
        \<lparr>row_x = x, row_y = y, row_text = trim (str item)\<rparr>)"

text \<open>
  \<open>Array.prototype.sort\<close> with a comparator is a stable sort: \<open>a\<close> comes before \<open>b\<close>
  when the comparator is negative, and elements that compare equal keep their order.
\<close>

fun insort_cmp :: "('a \<Rightarrow> 'a \<Rightarrow> rat) \<Rightarrow> 'a \<Rightarrow> 'a list \<Rightarrow> 'a list" where
  "insort_cmp cmp a [] = [a]"
| "insort_cmp cmp a (b # bs) =
     (if cmp a b \<le> 0 then a # b # bs else b # insort_cmp cmp a bs)"

definition js_sort :: "('a \<Rightarrow> 'a \<Rightarrow> rat) \<Rightarrow> 'a list \<Rightarrow> 'a list" where
  "js_sort cmp xs = foldr (insort_cmp cmp) xs []"

text \<open>\<open>(a, b) => b.y - a.y || a.x - b.x\<close>\<close>

definition compare_rows :: "row \<Rightarrow> row \<Rightarrow> rat" where
  "compare_rows a b =
     (if fsub (row_y b) (row_y a) \<noteq> 0 then fsub (row_y b) (row_y a)
      else fsub (row_x a) (row_x b))"

text \<open>\<open>(a, b) => a.x - b.x\<close>\<close>

definition compare_parts :: "part \<Rightarrow> part \<Rightarrow> rat" where
  "compare_parts a b = fsub (part_x a) (part_x b)"

definition lineTol :: rat where
  "lineTol = 5 / 2"

text \<open>\<open>lines.find(...)\<close>, as the position of the first line that passes the test.\<close>

fun find_index :: "('a \<Rightarrow> bool) \<Rightarrow> 'a list \<Rightarrow> nat option" where
  "find_index P [] = None"
| "find_index P (a # as) = (if P a then Some 0 else map_option Suc (find_index P as))"

text \<open>\<open>Math.abs(candidate.y - row.y) <= lineTol\<close>\<close>

definition near_line :: "row \<Rightarrow> line \<Rightarrow> bool" where
  "near_line r candidate \<longleftrightarrow> \<bar>fsub (line_y candidate) (row_y r)\<bar> \<le> lineTol"

definition part_of :: "row \<Rightarrow> part" where
  "part_of r = \<lparr>part_x = row_x r, part_text = row_text r\<rparr>"

text \<open>The body of the loop over the sorted rows: push onto the line found, or open a line.\<close>

definition place_row :: "row \<Rightarrow> line list \<Rightarrow> line list" where
  "place_row r lines =
     (case find_index (near_line r) lines of
        Some i \<Rightarrow>
          lines[i := (lines ! i)\<lparr>line_parts := line_parts (lines ! i) @ [part_of r]\<rparr>]
      | None \<Rightarrow> lines @ [\<lparr>line_y = row_y r, line_parts = [part_of r]\<rparr>])"

definition group_lines :: "row list \<Rightarrow> line list" where
  "group_lines rows = fold place_row rows []"

definition line_text :: "line \<Rightarrow> js_string" where
  "line_text l = join [0x20] (map part_text (js_sort compare_parts (line_parts l)))"

definition sort_rows :: "row list \<Rightarrow> row list" where
  "sort_rows rows = js_sort compare_rows rows"

text \<open>
  The callback. Its argument is what \<open>getTextContent()\<close> gave: \<open>None\<close> when it threw,
  which the \<open>catch\<close> turns into the empty string.
\<close>

definition pagerender :: "TextItem list option \<Rightarrow> js_string" where
  "pagerender content =
     (case content of
        None \<Rightarrow> []
      | Some items \<Rightarrow> join [0x0A] (map line_text (group_lines (sort_rows (map row_of items)))))"

section \<open>Retrieval: \<open>retrieveWithFallback\<close> (src/app/api/ask-question/route.tsx, lines 16 to 46)\<close>

record DocumentSectionMatch =
  match_id :: int
  match_document_id :: int
  match_section_content :: js_string
  match_similarity :: rat
  match_meta :: "(string \<times> string) list"

record TryCfg =
  topK :: int
  threshold :: "rat option"

definition DEFAULT_TRIES :: "TryCfg list" where
  "DEFAULT_TRIES =
     [\<lparr>topK = 8, threshold = None\<rparr>,
      \<lparr>topK = 12, threshold = Some (3 / 10)\<rparr>,
      \<lparr>topK = 20, threshold = Some (2 / 10)\<rparr>]"

text \<open>The two argument objects of the remote procedures.\<close>

datatype rpc_args =
  Topk_args "rat list" int
| Filtered_args "rat list" rat int

type_synonym rpc_call = "string \<times> rpc_args"

text \<open>
  What \<open>supabase.rpc\<close> resolves to: \<open>data\<close> and \<open>error\<close>, each possibly \<open>null\<close>.
  The search backend is a collaborator whose answer may change from call to call, so it
  takes the number of calls made before as well as the call.
\<close>

record rpc_response =
  resp_data :: "DocumentSectionMatch list option"
  resp_error :: "string option"

type_synonym search_backend = "nat \<Rightarrow> string \<Rightarrow> rpc_args \<Rightarrow> rpc_response"

definition rpc_of :: "TryCfg \<Rightarrow> string" where
  "rpc_of t =
     (if threshold t = None then ''match_document_sections_topk''
      else ''match_filtered_document_sections'')"

definition args_of :: "rat list \<Rightarrow> TryCfg \<Rightarrow> rpc_args" where
  "args_of queryEmbedding t =
     (case threshold t of
        None \<Rightarrow> Topk_args queryEmbedding (topK t)
      | Some th \<Rightarrow> Filtered_args queryEmbedding th (topK t))"

definition call_of :: "rat list \<Rightarrow> TryCfg \<Rightarrow> rpc_call" where
  "call_of queryEmbedding t = (rpc_of t, args_of queryEmbedding t)"

definition rpc_error_message :: "string \<Rightarrow> string \<Rightarrow> string" where
  "rpc_error_message rpc msg = ''RPC error ('' @ rpc @ ''): '' @ msg"

text \<open>
  The loop over the tiers. The result carries the calls made, in order, and either the
  message of the error thrown (\<open>Inl\<close>) or the matches returned (\<open>Inr\<close>).
\<close>

fun retrieve_tries ::
  "rat list \<Rightarrow> search_backend \<Rightarrow> rpc_call list \<Rightarrow> TryCfg list \<Rightarrow>
   rpc_call list \<times> (string + DocumentSectionMatch list)" where
  "retrieve_tries queryEmbedding supabase calls [] = (calls, Inr [])"
| "retrieve_tries queryEmbedding supabase calls (t # ts) =
     (let rpc = rpc_of t;
          args = args_of queryEmbedding t;
          response = supabase (length calls) rpc args;
          calls' = calls @ [(rpc, args)]
      in case resp_error response of
           Some msg \<Rightarrow> (calls', Inl (rpc_error_message rpc msg))
         | None \<Rightarrow>
             (case resp_data response of
                Some matches \<Rightarrow>
                  if length matches \<noteq> 0 then (calls', Inr matches)
                  else retrieve_tries queryEmbedding supabase calls' ts
              | None \<Rightarrow> retrieve_tries queryEmbedding supabase calls' ts))"

text \<open>The third parameter is optional: \<open>None\<close> takes the default tiers.\<close>

definition retrieveWithFallback ::
  "rat list \<Rightarrow> search_backend \<Rightarrow> TryCfg list option \<Rightarrow>
   rpc_call list \<times> (string + DocumentSectionMatch list)" where
  "retrieveWithFallback queryEmbedding supabase tries =
     retrieve_tries queryEmbedding supabase []
       (case tries of None \<Rightarrow> DEFAULT_TRIES | Some ts \<Rightarrow> ts)"

text \<open>
  For the statements: the response to the call of tier \<open>j\<close>, which is call number \<open>j\<close>
  of a run when every earlier tier was called once, and a response without error and
  without matches.
\<close>

definition tier_response :: "search_backend \<Rightarrow> rat list \<Rightarrow> TryCfg list \<Rightarrow> nat \<Rightarrow> rpc_response" where
  "tier_response supabase queryEmbedding tries j =
     supabase j (rpc_of (tries ! j)) (args_of queryEmbedding (tries ! j))"

definition empty_answer :: "rpc_response \<Rightarrow> bool" where
  "empty_answer response \<longleftrightarrow>
     resp_error response = None \<and>
     (resp_data response = None \<or> resp_data response = Some [])"

section \<open>Ingestion worker with inline helpers: \<open>POST\<close> (src/app/api/ingest-worker/route.ts, lines 66 to 153)\<close>

datatype document_status = Status_queued | Status_ready | Status_error

record document_row =
  status :: document_status
  error_message :: "string option"

record DocumentSection =
  document_id :: nat
  section_order :: nat
  section_content :: js_string
  embedding :: "rat list"
  meta :: "(string \<times> string) list"

text \<open>
  The database: the \<open>documents\<close> table by id, the \<open>document_sections\<close> table in order
  of insertion, and the inputs of the embedding requests sent so far.
\<close>

record database =
  documents :: "nat \<rightharpoonup> document_row"
  document_sections :: "DocumentSection list"
  embedding_requests :: "js_string list"

text \<open>
  The collaborators of one run. A call that can throw gives \<open>Inl\<close> with the message.
  \<^item> \<open>storage_download\<close>: the file at a storage path, \<open>None\<close> when \<open>data\<close> is \<open>null\<close>;
  \<^item> \<open>pdfParse\<close> and \<open>mammoth_extractRawText\<close>: the raw text, which may be missing; the
    mammoth module may lack the function;
  \<^item> \<open>embeddings_create\<close>: \<open>data[0]?.embedding\<close> for the chunk of a given index;
  \<^item> \<open>sections_insert\<close>: the message of \<open>sectionError\<close>, \<open>None\<close> when the insert succeeded.

  The Supabase and OpenAI clients are taken as constructed. A section whose insert
  succeeded is in the table, one whose insert failed is not, and the update of a document
  row in the \<open>catch\<close> block, whose result the handler does not look at, is applied.
\<close>

record collaborators =
  storage_download :: "string \<Rightarrow> 8 word list option"
  pdfParse :: "8 word list \<Rightarrow> string + js_string option"
  mammoth_extractRawText :: "(8 word list \<Rightarrow> string + js_string option) option"
  embeddings_create :: "nat \<Rightarrow> js_string \<Rightarrow> string + rat list option"
  sections_insert :: "DocumentSection \<Rightarrow> string option"

definition or_empty :: "js_string option \<Rightarrow> js_string" where
  "or_empty t = (case t of None \<Rightarrow> [] | Some s \<Rightarrow> s)"

definition extractTextFromFile :: "collaborators \<Rightarrow> 8 word list \<Rightarrow> string \<Rightarrow> string + js_string" where
  "extractTextFromFile c buffer mimeType =
     (if mimeType = ''application/pdf'' then
        (case pdfParse c buffer of
           Inl e \<Rightarrow> Inl e
         | Inr t \<Rightarrow> Inr (sanitizeText (or_empty t)))
      else if mimeType = ''application/vnd.openxmlformats-officedocument.wordprocessingml.document'' then
        (case mammoth_extractRawText c of
           None \<Rightarrow> Inr []
         | Some extract \<Rightarrow>
             (case extract buffer of
                Inl e \<Rightarrow> Inl e
              | Inr v \<Rightarrow> Inr (sanitizeText (or_empty v))))
      else Inr [])"

text \<open>The inner \<open>try\<close>: an exception of the extractor leaves the empty string.\<close>

definition extracted_text :: "collaborators \<Rightarrow> 8 word list \<Rightarrow> string \<Rightarrow> js_string" where
  "extracted_text c buffer mimetype =
     (case extractTextFromFile c buffer mimetype of Inl e \<Rightarrow> [] | Inr t \<Rightarrow> t)"

definition section_for :: "nat \<Rightarrow> nat \<Rightarrow> js_string \<Rightarrow> rat list \<Rightarrow> DocumentSection" where
  "section_for documentId index chunk emb =
     \<lparr>document_id = documentId, section_order = index + 1, section_content = chunk,
      embedding = emb, meta = [(''source'', ''upload'')]\<rparr>"

definition section_error_text :: "string \<Rightarrow> string" where
  "section_error_text msg =
     (if msg = [] then ''We could not store the vectorized sections.'' else msg)"

text \<open>
  The \<open>for\<close> loop over the chunks, from \<open>index\<close>. \<open>Some msg\<close> in the first component is
  an exception thrown out of the loop.
\<close>

function process_chunks ::
  "collaborators \<Rightarrow> nat \<Rightarrow> js_string list \<Rightarrow> nat \<Rightarrow> database \<Rightarrow> string option \<times> database" where
  "process_chunks c documentId chunks index db =
     (if index < length chunks then
        (let chunk = chunks ! index;
             db1 = db\<lparr>embedding_requests := embedding_requests db @ [chunk]\<rparr>
         in case embeddings_create c index chunk of
              Inl e \<Rightarrow> (Some e, db1)
            | Inr None \<Rightarrow> process_chunks c documentId chunks (index + 1) db1
            | Inr (Some emb) \<Rightarrow>
                (case sections_insert c (section_for documentId index chunk emb) of
                   Some msg \<Rightarrow> (Some (section_error_text msg), db1)
                 | None \<Rightarrow>
                     process_chunks c documentId chunks (index + 1)
                       (db1\<lparr>document_sections :=
                              document_sections db1 @ [section_for documentId index chunk emb]\<rparr>)))
      else (None, db))"
  by pat_completeness auto
termination
  by (relation "measure (\<lambda>(c, documentId, chunks, index, db). length chunks - index)") auto

declare process_chunks.simps [simp del]

text \<open>
  For the statements about a run: chunk \<open>j\<close> lets the loop go on (its embedding request
  returns, and its section, if it has an embedding, is stored), and the section that
  chunk \<open>j\<close> contributes to the table.
\<close>

definition chunk_proceeds :: "collaborators \<Rightarrow> nat \<Rightarrow> js_string list \<Rightarrow> nat \<Rightarrow> bool" where
  "chunk_proceeds c documentId chunks j =
     (case embeddings_create c j (chunks ! j) of
        Inl e \<Rightarrow> False
      | Inr None \<Rightarrow> True
      | Inr (Some emb) \<Rightarrow>
          sections_insert c (section_for documentId j (chunks ! j) emb) = None)"

definition stored_for :: "collaborators \<Rightarrow> nat \<Rightarrow> js_string list \<Rightarrow> nat \<Rightarrow> DocumentSection list" where
  "stored_for c documentId chunks j =
     (case embeddings_create c j (chunks ! j) of
        Inl e \<Rightarrow> []
      | Inr None \<Rightarrow> []
      | Inr (Some emb) \<Rightarrow> [section_for documentId j (chunks ! j) emb])"

text \<open>The message of the TypeError for \<open>file!.arrayBuffer()\<close> on \<open>null\<close>; \<open>CHR 0x27\<close> is the quote.\<close>

definition null_file_message :: string where
  "null_file_message =
     ''Cannot read properties of null (reading '' @ [CHR 0x27] @ ''arrayBuffer'' @
     [CHR 0x27] @ '')''"

text \<open>The body of the outer \<open>try\<close>.\<close>

definition ingest_body ::
  "collaborators \<Rightarrow> nat \<Rightarrow> string \<Rightarrow> string \<Rightarrow> database \<Rightarrow> string option \<times> database" where
  "ingest_body c documentId storagePath mimetype db =
     (case storage_download c storagePath of
        None \<Rightarrow> (Some null_file_message, db)
      | Some buffer \<Rightarrow>
          (let extractedText = extracted_text c buffer mimetype
           in if length (trim extractedText) \<noteq> 0
              then process_chunks c documentId (splitIntoChunks extractedText 300) 0 db
              else (None, db)))"

text \<open>\<open>.update({...}).eq("id", documentId)\<close> changes the row with that id, if there is one.\<close>

definition update_document :: "nat \<Rightarrow> (document_row \<Rightarrow> document_row) \<Rightarrow> database \<Rightarrow> database" where
  "update_document documentId f db =
     (case documents db documentId of
        None \<Rightarrow> db
      | Some r \<Rightarrow> db\<lparr>documents := (documents db)(documentId \<mapsto> f r)\<rparr>)"

text \<open>The handler: the HTTP status of the response and the database after the run.\<close>

definition POST :: "collaborators \<Rightarrow> nat \<Rightarrow> string \<Rightarrow> string \<Rightarrow> database \<Rightarrow> nat \<times> database" where
  "POST c documentId storagePath mimetype db =
     (case ingest_body c documentId storagePath mimetype db of
        (None, db') \<Rightarrow> (200, db')
      | (Some msg, db') \<Rightarrow>
          (500, update_document documentId
                  (\<lambda>r. r\<lparr>status := Status_error, error_message := Some msg\<rparr>) db'))"

section \<open>Ingestion worker on the shared utilities: \<open>POST\<close> (src/app/ask-question/page.tsx, lines 115 to 194) with \<open>extractTextFromFile\<close> (src/utils/index.ts, lines 68 to 129)\<close>

text \<open>
  This copy of the worker imports \<open>extractTextFromFile\<close> and \<open>splitIntoChunks\<close> from the
  utilities. Its loop over the chunks is the loop above. It differs in three places: the
  PDF extractor hands the \<open>pagerender\<close> callback to the parser, a blank text throws, and
  after the loop the document is set to \<open>ready\<close>.

  What this copy needs beyond the collaborators above:
  \<^item> \<open>pdfParse_pagerender\<close>: \<open>pdfParse(buffer, { pagerender })\<close>, the parser given the
    callback that renders a page; it throws or gives the text, which may be missing;
  \<^item> \<open>ready_update\<close>: the \<open>error\<close> of the response to the update that sets \<open>ready\<close>,
    \<open>None\<close> when the store applied the update.
\<close>

record utils_collaborators =
  pdfParse_pagerender ::
    "8 word list \<Rightarrow> (TextItem list option \<Rightarrow> js_string) \<Rightarrow> string + js_string option"
  ready_update :: "string option"

definition extractPdfTextInReadingOrder :: "utils_collaborators \<Rightarrow> 8 word list \<Rightarrow> string + js_string" where
  "extractPdfTextInReadingOrder u buffer =
     (case pdfParse_pagerender u buffer pagerender of
        Inl e \<Rightarrow> Inl e
      | Inr t \<Rightarrow> Inr (or_empty t))"

definition extractTextFromFile_utils ::
  "collaborators \<Rightarrow> utils_collaborators \<Rightarrow> 8 word list \<Rightarrow> string \<Rightarrow> string + js_string" where
  "extractTextFromFile_utils c u buffer mimeType =
     (if mimeType = ''application/pdf'' then
        (case extractPdfTextInReadingOrder u buffer of
           Inl e \<Rightarrow> Inl e
         | Inr t \<Rightarrow> Inr (sanitizeText t))
      else if mimeType = ''application/vnd.openxmlformats-officedocument.wordprocessingml.document'' then
        (case mammoth_extractRawText c of
           None \<Rightarrow> Inr []
         | Some extract \<Rightarrow>
             (case extract buffer of
                Inl e \<Rightarrow> Inl e
              | Inr v \<Rightarrow> Inr (sanitizeText (or_empty v))))
      else Inr [])"

definition extracted_text_utils ::
  "collaborators \<Rightarrow> utils_collaborators \<Rightarrow> 8 word list \<Rightarrow> string \<Rightarrow> js_string" where
  "extracted_text_utils c u buffer mimetype =
     (case extractTextFromFile_utils c u buffer mimetype of Inl e \<Rightarrow> [] | Inr t \<Rightarrow> t)"

text \<open>The message thrown when the update to \<open>ready\<close> fails; \<open>CHR 0x27\<close> is the quote.\<close>

definition update_failed_message :: string where
  "update_failed_message = ''Can'' @ [CHR 0x27] @ ''t update document status''"

text \<open>The body of the outer \<open>try\<close> of this copy.\<close>

definition ingest_body_utils ::
  "collaborators \<Rightarrow> utils_collaborators \<Rightarrow> nat \<Rightarrow> string \<Rightarrow> string \<Rightarrow> database \<Rightarrow>
   string option \<times> database" where
  "ingest_body_utils c u documentId storagePath mimetype db =
     (case storage_download c storagePath of
        None \<Rightarrow> (Some null_file_message, db)
      | Some buffer \<Rightarrow>
          (let extractedText = extracted_text_utils c u buffer mimetype
           in case (if length (trim extractedText) \<noteq> 0
                    then process_chunks c documentId (splitIntoChunks extractedText 300) 0 db
                    else (Some ''We could not store the vectorized sections.'', db)) of
                (Some msg, db') \<Rightarrow> (Some msg, db')
              | (None, db') \<Rightarrow>
                  (case ready_update u of
                     Some errorUpdate \<Rightarrow> (Some update_failed_message, db')
                   | None \<Rightarrow>
                       (None, update_document documentId (\<lambda>r. r\<lparr>status := Status_ready\<rparr>) db'))))"

definition POST_utils ::
  "collaborators \<Rightarrow> utils_collaborators \<Rightarrow> nat \<Rightarrow> string \<Rightarrow> string \<Rightarrow> database \<Rightarrow>
   nat \<times> database" where
  "POST_utils c u documentId storagePath mimetype db =
     (case ingest_body_utils c u documentId storagePath mimetype db of
        (None, db') \<Rightarrow> (200, db')
      | (Some msg, db') \<Rightarrow>
          (500, update_document documentId
                  (\<lambda>r. r\<lparr>status := Status_error, error_message := Some msg\<rparr>) db'))"

section \<open>Sample runs\<close>

text \<open>
  A queued document with id 1 in an otherwise empty database, and the collaborators of a
  run on a PDF with a given text, where the download, the parser and every embedding
  request succeed, the inserts behave as given, and the store applies the update to
  \<open>ready\<close>.
\<close>

definition one_queued_document :: database where
  "one_queued_document =
     \<lparr>documents = [1 \<mapsto> \<lparr>status = Status_queued, error_message = None\<rparr>],
      document_sections = [], embedding_requests = []\<rparr>"

definition pdf_run :: "js_string \<Rightarrow> (DocumentSection \<Rightarrow> string option) \<Rightarrow> collaborators" where
  "pdf_run pdf_text inserts =
     \<lparr>storage_download = (\<lambda>path. Some []),
      pdfParse = (\<lambda>buffer. Inr (Some pdf_text)),
      mammoth_extractRawText = None,
      embeddings_create = (\<lambda>j chunk. Inr (Some [1])),
      sections_insert = inserts\<rparr>"

definition utils_run :: "js_string \<Rightarrow> utils_collaborators" where
  "utils_run pdf_text =
     \<lparr>pdfParse_pagerender = (\<lambda>buffer render. Inr (Some pdf_text)), ready_update = None\<rparr>"

text \<open>The texts \<open>Hello.\<close> and space, line feed, space.\<close>

definition hello :: js_string where
  "hello = [0x48, 0x65, 0x6C, 0x6C, 0x6F, 0x2E]"

definition blank :: js_string where
  "blank = [0x20, 0x0A, 0x20]"

text \<open>
  A text for runs with three chunks: three sentences of 150 code units each, so that no two
  of them fit into one chunk of 300.
\<close>

definition three_sentences :: js_string where
  "three_sentences =
     replicate 149 0x61 @ [0x2E, 0x20] @ replicate 149 0x62 @ [0x2E, 0x20] @
     replicate 149 0x63 @ [0x2E]"

section \<open>Facts about strings\<close>

lemma join_empty_sep: "join [] xs = concat xs"
  by (induction "[]::js_string" xs rule: join.induct) simp_all

lemma trim_Nil: "trim [] = []"
  by (simp add: trim_def)

lemma last_dropWhile_nonempty: "dropWhile P xs \<noteq> [] \<Longrightarrow> last (dropWhile P xs) = last xs"
  by (induction xs) (auto split: if_splits)

lemma trim_clean: "trim s \<noteq> [] \<Longrightarrow> clean (trim s)"
proof -
  assume ne: "trim s \<noteq> []"
  define t where "t = dropWhile is_ws s"
  define r where "r = dropWhile is_ws (rev t)"
  have tr: "trim s = rev r" by (simp add: trim_def t_def r_def)
  from ne tr have rne: "r \<noteq> []" by simp
  then have tne: "t \<noteq> []" by (auto simp: r_def)
  have "\<not> is_ws (hd r)" using rne unfolding r_def by (rule hd_dropWhile)
  then have l: "\<not> is_ws (last (trim s))" using rne by (simp add: tr last_rev)
  have "last r = last (rev t)" using rne unfolding r_def by (rule last_dropWhile_nonempty)
  then have "last r = hd t" using tne by (simp add: last_rev)
  moreover have "\<not> is_ws (hd t)" using tne unfolding t_def by (rule hd_dropWhile)
  ultimately have "\<not> is_ws (hd (trim s))" using rne by (simp add: tr hd_rev)
  with l ne show ?thesis by (simp add: clean_def)
qed

lemma clean_trim: "clean s \<Longrightarrow> trim s = s"
proof -
  assume c: "clean s"
  then have "dropWhile is_ws s = s" by (cases s) (auto simp: clean_def)
  moreover have "dropWhile is_ws (rev s) = rev s"
    using c by (cases "rev s") (auto simp: clean_def last_rev hd_rev dest: arg_cong[where f = hd])
  ultimately show ?thesis by (simp add: trim_def)
qed

lemma clean_iff: "clean s \<longleftrightarrow> s \<noteq> [] \<and> trim s = s"
  using trim_clean[of s] clean_trim[of s] by (auto simp: clean_def)

lemma sentences_clean: "s \<in> set (sentences_of text) \<Longrightarrow> clean s"
  by (auto simp: sentences_of_def intro: trim_clean)

lemma join_snoc: "g \<noteq> [] \<Longrightarrow> join sep (g @ [s]) = join sep g @ sep @ s"
  by (induction sep g rule: join.induct) auto

lemma join_eq_Nil: "\<forall>s\<in>set g. s \<noteq> [] \<Longrightarrow> join sep g = [] \<longleftrightarrow> g = []"
  by (induction sep g rule: join.induct) auto

lemma join_clean: "g \<noteq> [] \<Longrightarrow> \<forall>s\<in>set g. clean s \<Longrightarrow> clean (join [0x20] g)"
proof (induction "[0x20::code_unit]" g rule: join.induct)
  case 1
  then show ?case by simp
next
  case (2 x)
  then show ?case by simp
next
  case (3 x y ys)
  then have "clean (join [0x20] (y # ys))" and "clean x" by simp_all
  then show ?case by (auto simp: clean_def)
qed


subsection \<open>The packing loop, group by group\<close>

lemma pack_invariant:
  assumes "\<forall>s\<in>set ss. clean s"
  shows "\<exists>gs g. fold (group_step m) ss ([], []) = (gs, g) \<and>
           fold (pack_step m) ss ([], []) = (map (join [0x20]) gs, join [0x20] g) \<and>
           concat gs @ g = ss \<and> (\<forall>grp\<in>set gs. grp \<noteq> []) \<and> (g = [] \<longrightarrow> gs = []) \<and>
           (\<forall>grp\<in>set (gs @ [g]). int (length (join [0x20] grp)) \<le> m \<or> length grp \<le> 1)"
  using assms
proof (induction ss rule: rev_induct)
  case Nil
  show ?case by simp
next
  case (snoc x xs)
  then obtain gs g where
    G: "fold (group_step m) xs ([], []) = (gs, g)" and
    P: "fold (pack_step m) xs ([], []) = (map (join [0x20]) gs, join [0x20] g)" and
    C: "concat gs @ g = xs" and
    N: "\<forall>grp\<in>set gs. grp \<noteq> []" and
    E: "g = [] \<longrightarrow> gs = []" and
    B: "\<forall>grp\<in>set (gs @ [g]). int (length (join [0x20] grp)) \<le> m \<or> length grp \<le> 1"
    by auto
  have cl: "\<forall>s\<in>set g. s \<noteq> []"
    using snoc.prems C by (auto simp: clean_def)
  have jn: "join [0x20] g = [] \<longleftrightarrow> g = []"
    using cl by (rule join_eq_Nil)
  show ?case
  proof (cases "g = []")
    case True
    with E C have "gs = []" "xs = []" by auto
    with True show ?thesis
      by (simp add: group_step_def pack_step_def)
  next
    case False
    note gne = this
    show ?thesis
    proof (cases "int (length (join [0x20] g)) + 1 + int (length x) \<le> m")
      case True
      have "fold (group_step m) (xs @ [x]) ([], []) = (gs, g @ [x])"
        using G gne True by (simp add: group_step_def)
      moreover have "fold (pack_step m) (xs @ [x]) ([], []) =
          (map (join [0x20]) gs, join [0x20] (g @ [x]))"
        using P gne True jn by (simp add: pack_step_def join_snoc)
      moreover have "concat gs @ (g @ [x]) = xs @ [x]"
        using C by simp
      moreover have "int (length (join [0x20] (g @ [x]))) \<le> m"
        using True gne by (simp add: join_snoc)
      ultimately show ?thesis
        using N B by auto
    next
      case False
      have "fold (group_step m) (xs @ [x]) ([], []) = (gs @ [g], [x])"
        using G gne False by (simp add: group_step_def)
      moreover have "fold (pack_step m) (xs @ [x]) ([], []) =
          (map (join [0x20]) (gs @ [g]), join [0x20] [x])"
        using P gne False jn by (simp add: pack_step_def)
      moreover have "concat (gs @ [g]) @ [x] = xs @ [x]"
        using C by simp
      ultimately show ?thesis
        using N B gne by auto
    qed
  qed
qed

lemma chunks_grouping:
  "splitIntoChunks text m = map (join [0x20]) (chunk_groups text m) \<and>
   concat (chunk_groups text m) = sentences_of text \<and>
   (\<forall>g\<in>set (chunk_groups text m).
      g \<noteq> [] \<and> (int (length (join [0x20] g)) \<le> m \<or> length g \<le> 1))"
proof -
  have cl: "\<forall>s\<in>set (sentences_of text). clean s"
    by (simp add: sentences_clean)
  from pack_invariant[OF cl, of m] obtain gs g where
    G: "fold (group_step m) (sentences_of text) ([], []) = (gs, g)" and
    P: "fold (pack_step m) (sentences_of text) ([], []) = (map (join [0x20]) gs, join [0x20] g)" and
    C: "concat gs @ g = sentences_of text" and
    N: "\<forall>grp\<in>set gs. grp \<noteq> []" and
    B: "\<forall>grp\<in>set (gs @ [g]). int (length (join [0x20] grp)) \<le> m \<or> length grp \<le> 1"
    by blast
  have clg: "\<forall>s\<in>set g. clean s"
    using cl C by (metis Un_iff set_append)
  show ?thesis
  proof (cases "g = []")
    case True
    then show ?thesis
      using G P C N B by (simp add: splitIntoChunks_def chunk_groups_def trim_def)
  next
    case False
    then have "clean (join [0x20] g)"
      using clg by (rule join_clean)
    then have "trim (join [0x20] g) \<noteq> []"
      by (simp add: clean_iff)
    then show ?thesis
      using False G P C N B by (simp add: splitIntoChunks_def chunk_groups_def)
  qed
qed

subsection \<open>Joining joined strings\<close>

lemma length_le_join: "s \<in> set g \<Longrightarrow> length s \<le> length (join sep g)"
  by (induction sep g rule: join.induct) auto

lemma join_Cons: "xs \<noteq> [] \<Longrightarrow> join sep (x # xs) = x @ sep @ join sep xs"
  by (cases xs) simp_all

lemma join_append:
  "a \<noteq> [] \<Longrightarrow> b \<noteq> [] \<Longrightarrow> join sep (a @ b) = join sep a @ sep @ join sep b"
  by (induction sep a rule: join.induct) (auto simp: join_Cons)

lemma join_concat:
  "\<forall>g\<in>set G. g \<noteq> [] \<Longrightarrow> join sep (map (join sep) G) = join sep (concat G)"
proof (induction G)
  case Nil
  show ?case by simp
next
  case (Cons g G)
  show ?case
  proof (cases "G = []")
    case True
    then show ?thesis by simp
  next
    case False
    then obtain h H where "G = h # H" by (cases G) auto
    with Cons.prems have "concat G \<noteq> []" by auto
    moreover have "g \<noteq> []" using Cons.prems by simp
    moreover have "map (join sep) G \<noteq> []" using False by simp
    ultimately show ?thesis
      using Cons by (simp add: join_Cons join_append)
  qed
qed

section \<open>The normalizer replaces, it does not remove\<close>

lemma unat_eq_num:
  "(u::16 word) = 9 \<longleftrightarrow> unat u = 9" "u = 10 \<longleftrightarrow> unat u = 10" "u = 13 \<longleftrightarrow> unat u = 13"
  "u = 0x7F \<longleftrightarrow> unat u = 0x7F"
  by (simp_all add: word_unat_eq_iff)

lemma sanitize_char_single: "sanitize_char [u] = [scrub_control u]"
  unfolding sanitize_char_def scrub_control_def is_c0_control_def is_c1_control_def
  by (auto simp: word_le_nat_alt unat_eq_num)

lemma surrogate_not_control:
  assumes "0xD800 \<le> u"
  shows "\<not> is_c0_control u" "u \<noteq> 0x7F" "\<not> is_c1_control u"
  using assms unfolding is_c0_control_def is_c1_control_def
  by (auto simp: word_le_nat_alt)

lemma scrub_control_surrogate: "0xD800 \<le> u \<Longrightarrow> scrub_control u = u"
  using surrogate_not_control[of u] by (simp add: scrub_control_def)

lemma sanitize_char_pair:
  "is_high_surrogate u \<Longrightarrow> is_low_surrogate v \<Longrightarrow> sanitize_char [u, v] = [u, v]"
  unfolding sanitize_char_def by simp

lemma sanitize_chars_map:
  "concat (map sanitize_char (Array_from s)) = map scrub_control s"
proof (induction s rule: Array_from.induct)
  case 1
  show ?case by simp
next
  case (2 u)
  show ?case by (simp add: sanitize_char_single)
next
  case (3 u v rest)
  show ?case
  proof (cases "is_high_surrogate u \<and> is_low_surrogate v")
    case True
    then have big: "0xD800 \<le> u" "0xD800 \<le> v"
      by (auto simp: is_high_surrogate_def is_low_surrogate_def word_le_nat_alt)
    have split: "Array_from (u # v # rest) = [u, v] # Array_from rest"
      using True by simp
    have ih: "concat (map sanitize_char (Array_from rest)) = map scrub_control rest"
      using 3(1) True by blast
    have "sanitize_char [u, v] = [scrub_control u, scrub_control v]"
      using True big by (simp add: sanitize_char_pair scrub_control_surrogate)
    then show ?thesis
      unfolding split by (simp add: ih)
  next
    case False
    have split: "Array_from (u # v # rest) = [u] # Array_from (v # rest)"
      using False by simp
    have ih: "concat (map sanitize_char (Array_from (v # rest))) = map scrub_control (v # rest)"
      using 3(2) False by blast
    show ?thesis
      unfolding split by (simp add: ih sanitize_char_single del: Array_from.simps)
  qed
qed

lemma scrub_split: "(if scrub_control u = 0xFFFD then 0x20 else scrub_control u) = scrub u"
  by (simp add: scrub_def scrub_control_def is_scrubbed_def)

text \<open>
  C4, as the code has it. Every code unit that is a C0 control character other than tab,
  line feed and carriage return, or lies in U+007F to U+009F (DEL and the C1 range), or is
  U+FFFD, is replaced by one space; every other code unit is kept; the result is trimmed.
  Nothing is removed before the trim. The function is total: it has a value on every
  string, and for the empty string that value is the empty string.
\<close>

theorem sanitizeText_replaces_by_space:
  "sanitizeText input = trim (map scrub input) \<and> sanitizeText [] = []"
proof -
  have "replace_fffd (join [] (map sanitize_char (Array_from input))) = map scrub input"
    by (simp add: replace_fffd_def join_empty_sep sanitize_chars_map scrub_split)
  then show ?thesis
    by (simp add: sanitizeText_def trim_Nil)
qed

text \<open>
  C4 as stated fails: on the three code units \<open>a\<close>, U+0001, \<open>b\<close> the control character is
  not removed, a space takes its place.
\<close>

theorem sanitizeText_keeps_a_space_for_control:
  "sanitizeText [0x61, 0x01, 0x62] = [0x61, 0x20, 0x62] \<and>
   sanitizeText [0x61, 0x01, 0x62] \<noteq> normalize_by_removal [0x61, 0x01, 0x62]"
  by (simp add: sanitizeText_def sanitize_char_def replace_fffd_def trim_def is_ws_def
        is_high_surrogate_def is_low_surrogate_def normalize_by_removal_def
        is_c0_control_def is_c1_control_def)

section \<open>The chunker packs whole sentences\<close>

lemma in_concat_iff: "s \<in> set (concat G) \<longleftrightarrow> (\<exists>g\<in>set G. s \<in> set g)"
  by auto

text \<open>
  A sample text: \<open>Hi.\<close>, two spaces, \<open>A!\<close>, a carriage return and line feed, a carriage
  return, a space, \<open>B?\<close>, a space. It has three sentences.
\<close>

lemma sample_sentences:
  "sentences_of [0x48, 0x69, 0x2E, 0x20, 0x20, 0x41, 0x21, 0x0D, 0x0A, 0x0D, 0x20, 0x42, 0x3F, 0x20] =
     [[0x48, 0x69, 0x2E], [0x41, 0x21], [0x42, 0x3F]]"
  by (simp add: sentences_of_def paragraphs_of_def is_ws_def is_terminal_def trim_def)

lemma sample_groups_5:
  "chunk_groups [0x48, 0x69, 0x2E, 0x20, 0x20, 0x41, 0x21, 0x0D, 0x0A, 0x0D, 0x20, 0x42, 0x3F, 0x20] 5 =
     [[[0x48, 0x69, 0x2E]], [[0x41, 0x21], [0x42, 0x3F]]]"
  by (simp add: chunk_groups_def sample_sentences group_step_def)

lemma sample_groups_2:
  "chunk_groups [0x48, 0x69, 0x2E, 0x20, 0x20, 0x41, 0x21, 0x0D, 0x0A, 0x0D, 0x20, 0x42, 0x3F, 0x20] 2 =
     [[[0x48, 0x69, 0x2E]], [[0x41, 0x21]], [[0x42, 0x3F]]]"
  by (simp add: chunk_groups_def sample_sentences group_step_def)

lemma sample_chunks_5:
  "splitIntoChunks [0x48, 0x69, 0x2E, 0x20, 0x20, 0x41, 0x21, 0x0D, 0x0A, 0x0D, 0x20, 0x42, 0x3F, 0x20] 5 =
     [[0x48, 0x69, 0x2E], [0x41, 0x21, 0x20, 0x42, 0x3F]]"
  by (simp add: splitIntoChunks_def sample_sentences pack_step_def trim_def is_ws_def)

lemma sample_chunks_2:
  "splitIntoChunks [0x48, 0x69, 0x2E, 0x20, 0x20, 0x41, 0x21, 0x0D, 0x0A, 0x0D, 0x20, 0x42, 0x3F, 0x20] 2 =
     [[0x48, 0x69, 0x2E], [0x41, 0x21], [0x42, 0x3F]]"
  by (simp add: splitIntoChunks_def sample_sentences pack_step_def trim_def is_ws_def)

text \<open>
  C5. Every chunk is the sentences of one group joined by single spaces, and a group either
  stays within \<open>maxChunkSize\<close> or consists of a single sentence; a sentence that is longer
  than \<open>maxChunkSize\<close> forms a group of its own, so it is never split and never merged.
  Hence every chunk has length at most \<open>maxChunkSize\<close> or is a sentence of the stream.
  This holds for every \<open>maxChunkSize\<close>, in particular for every positive one.
\<close>

theorem chunk_within_budget_or_single_sentence:
  "splitIntoChunks text maxChunkSize = map (join [0x20]) (chunk_groups text maxChunkSize) \<and>
   concat (chunk_groups text maxChunkSize) = sentences_of text \<and>
   (\<forall>g\<in>set (chunk_groups text maxChunkSize).
      int (length (join [0x20] g)) \<le> maxChunkSize \<or> (\<exists>s. g = [s])) \<and>
   (\<forall>s\<in>set (sentences_of text).
      maxChunkSize < int (length s) \<longrightarrow> [s] \<in> set (chunk_groups text maxChunkSize)) \<and>
   (\<forall>c\<in>set (splitIntoChunks text maxChunkSize).
      int (length c) \<le> maxChunkSize \<or> c \<in> set (sentences_of text))"
proof -
  let ?G = "chunk_groups text maxChunkSize"
  note g = chunks_grouping[of "text" maxChunkSize]
  have single: "int (length (join [0x20] grp)) \<le> maxChunkSize \<or> (\<exists>s. grp = [s])"
    if "grp \<in> set ?G" for grp
  proof -
    from g that have "grp \<noteq> []"
      and "int (length (join [0x20] grp)) \<le> maxChunkSize \<or> length grp \<le> 1" by auto
    then show ?thesis by (cases grp) auto
  qed
  have alone: "[s] \<in> set ?G"
    if "s \<in> set (sentences_of text)" and "maxChunkSize < int (length s)" for s
  proof -
    from g have "concat ?G = sentences_of text" by simp
    with that(1) obtain grp where grp: "grp \<in> set ?G" "s \<in> set grp"
      using in_concat_iff[of s ?G] by auto
    then have "length s \<le> length (join [0x20] grp)" by (simp add: length_le_join)
    with that(2) have "\<not> int (length (join [0x20] grp)) \<le> maxChunkSize" by simp
    with single[OF grp(1)] obtain t where "grp = [t]" by auto
    with grp show ?thesis by simp
  qed
  have chunk: "int (length c) \<le> maxChunkSize \<or> c \<in> set (sentences_of text)"
    if "c \<in> set (splitIntoChunks text maxChunkSize)" for c
  proof -
    from that g obtain grp where grp: "grp \<in> set ?G" "c = join [0x20] grp" by auto
    from single[OF grp(1)] show ?thesis
    proof
      assume "int (length (join [0x20] grp)) \<le> maxChunkSize"
      with grp show ?thesis by simp
    next
      assume "\<exists>s. grp = [s]"
      then obtain s where s: "grp = [s]" by auto
      moreover from g have "concat ?G = sentences_of text" by simp
      ultimately have "s \<in> set (sentences_of text)"
        using grp(1) in_concat_iff[of s ?G] by fastforce
      with s grp show ?thesis by simp
    qed
  qed
  from g single alone chunk show ?thesis by blast
qed

theorem chunk_within_budget_or_single_sentence_witness:
  "[0x48, 0x69, 0x2E] \<in> set (sentences_of [0x48, 0x69, 0x2E, 0x20, 0x20, 0x41, 0x21, 0x0D, 0x0A, 0x0D, 0x20, 0x42, 0x3F, 0x20]) \<and>
   (2::int) < int (length [0x48::code_unit, 0x69, 0x2E]) \<and>
   [[0x48, 0x69, 0x2E]] \<in> set (chunk_groups [0x48, 0x69, 0x2E, 0x20, 0x20, 0x41, 0x21, 0x0D, 0x0A, 0x0D, 0x20, 0x42, 0x3F, 0x20] 2) \<and>
   [0x41, 0x21, 0x20, 0x42, 0x3F] \<in> set (splitIntoChunks [0x48, 0x69, 0x2E, 0x20, 0x20, 0x41, 0x21, 0x0D, 0x0A, 0x0D, 0x20, 0x42, 0x3F, 0x20] 5) \<and>
   int (length [0x41::code_unit, 0x21, 0x20, 0x42, 0x3F]) \<le> 5"
  using chunk_within_budget_or_single_sentence
          [of "[0x48, 0x69, 0x2E, 0x20, 0x20, 0x41, 0x21, 0x0D, 0x0A, 0x0D, 0x20, 0x42, 0x3F, 0x20]" 2]
        chunk_within_budget_or_single_sentence
          [of "[0x48, 0x69, 0x2E, 0x20, 0x20, 0x41, 0x21, 0x0D, 0x0A, 0x0D, 0x20, 0x42, 0x3F, 0x20]" 5]
  by (simp add: sample_sentences sample_chunks_5 sample_chunks_2 sample_groups_5 sample_groups_2)

text \<open>
  C6. The chunks are the groups joined by single spaces, and the groups concatenated are the
  sentence stream of the paragraph and sentence split: no sentence is dropped, reordered
  or altered. Joining all chunks by single spaces gives the same string as joining all
  sentences by single spaces. This holds for every text and every \<open>maxChunkSize\<close>.
\<close>

theorem chunks_reproduce_sentence_stream:
  "splitIntoChunks text maxChunkSize = map (join [0x20]) (chunk_groups text maxChunkSize) \<and>
   concat (chunk_groups text maxChunkSize) = sentences_of text \<and>
   join [0x20] (splitIntoChunks text maxChunkSize) = join [0x20] (sentences_of text)"
proof -
  note g = chunks_grouping[of "text" maxChunkSize]
  then have "\<forall>grp\<in>set (chunk_groups text maxChunkSize). grp \<noteq> []" by simp
  then have "join [0x20] (map (join [0x20]) (chunk_groups text maxChunkSize)) =
      join [0x20] (concat (chunk_groups text maxChunkSize))"
    by (rule join_concat)
  with g show ?thesis by simp
qed

text \<open>
  C10. Every chunk is not empty and has no white space at either end: it is one or more
  sentences joined by single spaces, each sentence not empty and equal to its own trim.
\<close>

theorem chunks_are_joined_trimmed_sentences:
  "splitIntoChunks text maxChunkSize = map (join [0x20]) (chunk_groups text maxChunkSize) \<and>
   (\<forall>g\<in>set (chunk_groups text maxChunkSize).
      g \<noteq> [] \<and> (\<forall>s\<in>set g. s \<in> set (sentences_of text) \<and> s \<noteq> [] \<and> trim s = s)) \<and>
   (\<forall>c\<in>set (splitIntoChunks text maxChunkSize).
      c \<noteq> [] \<and> trim c = c \<and> \<not> is_ws (hd c) \<and> \<not> is_ws (last c))"
proof -
  let ?G = "chunk_groups text maxChunkSize"
  note g = chunks_grouping[of "text" maxChunkSize]
  have members: "s \<in> set (sentences_of text) \<and> clean s" if "grp \<in> set ?G" "s \<in> set grp" for grp s
  proof -
    from g have "concat ?G = sentences_of text" by simp
    with that have "s \<in> set (sentences_of text)"
      using in_concat_iff[of s ?G] by auto
    then show ?thesis by (simp add: sentences_clean)
  qed
  have groups: "grp \<noteq> [] \<and> (\<forall>s\<in>set grp. s \<in> set (sentences_of text) \<and> s \<noteq> [] \<and> trim s = s)"
    if "grp \<in> set ?G" for grp
    using that g members[OF that] by (auto simp: clean_iff)
  have chunks: "c \<noteq> [] \<and> trim c = c \<and> \<not> is_ws (hd c) \<and> \<not> is_ws (last c)"
    if "c \<in> set (splitIntoChunks text maxChunkSize)" for c
  proof -
    from that g obtain grp where grp: "grp \<in> set ?G" "c = join [0x20] grp" by auto
    then have "grp \<noteq> []" and "\<forall>s\<in>set grp. clean s"
      using g members by auto
    then have "clean c" unfolding grp(2) by (rule join_clean)
    then show ?thesis using clean_trim[of c] by (simp add: clean_def)
  qed
  from g groups chunks show ?thesis by blast
qed

theorem chunks_are_joined_trimmed_sentences_witness:
  "[[0x41, 0x21], [0x42, 0x3F]] \<in> set (chunk_groups [0x48, 0x69, 0x2E, 0x20, 0x20, 0x41, 0x21, 0x0D, 0x0A, 0x0D, 0x20, 0x42, 0x3F, 0x20] 5) \<and>
   [0x42, 0x3F] \<in> set (sentences_of [0x48, 0x69, 0x2E, 0x20, 0x20, 0x41, 0x21, 0x0D, 0x0A, 0x0D, 0x20, 0x42, 0x3F, 0x20]) \<and>
   trim [0x42, 0x3F] = [0x42, 0x3F] \<and>
   [0x41, 0x21, 0x20, 0x42, 0x3F] \<in> set (splitIntoChunks [0x48, 0x69, 0x2E, 0x20, 0x20, 0x41, 0x21, 0x0D, 0x0A, 0x0D, 0x20, 0x42, 0x3F, 0x20] 5) \<and>
   trim [0x41, 0x21, 0x20, 0x42, 0x3F] = [0x41, 0x21, 0x20, 0x42, 0x3F]"
  using chunks_are_joined_trimmed_sentences
          [of "[0x48, 0x69, 0x2E, 0x20, 0x20, 0x41, 0x21, 0x0D, 0x0A, 0x0D, 0x20, 0x42, 0x3F, 0x20]" 5]
  by (simp add: sample_sentences sample_groups_5 sample_chunks_5)

section \<open>Binary64 subtraction\<close>

lemma halvings_bounds: "1 \<le> x \<Longrightarrow> 2 powi halvings x \<le> x \<and> x < 2 powi (halvings x + 1)"
proof (induction x rule: halvings.induct)
  case (1 x)
  show ?case
  proof (cases "2 \<le> x")
    case True
    then have "1 \<le> x / 2" by simp
    with 1 True have ih: "2 powi halvings (x / 2) \<le> x / 2" "x / 2 < 2 powi (halvings (x / 2) + 1)"
      by simp_all
    have h: "halvings x = halvings (x / 2) + 1"
      using True by (subst halvings.simps) simp
    have p: "(2::rat) powi (k + 1) = 2 * 2 powi k" for k
      by (simp add: power_int_add)
    from ih show ?thesis unfolding h p by simp
  next
    case False
    then have h: "halvings x = 0" by (subst halvings.simps) simp
    from False 1(2) show ?thesis unfolding h by simp
  qed
qed

lemma halvings_nonneg: "0 \<le> halvings x"
proof (induction x rule: halvings.induct)
  case (1 x)
  show ?case by (subst halvings.simps) (use 1 in auto)
qed

lemma floor_log2_bounds:
  assumes "0 < x"
  shows "2 powi floor_log2 x \<le> x \<and> x < 2 powi (floor_log2 x + 1)"
proof (cases "1 \<le> x")
  case True
  then show ?thesis using halvings_bounds[of x] by (simp add: floor_log2_def)
next
  case False
  define t where "t = 1 / x"
  define h where "h = halvings t"
  have t: "1 \<le> t" "0 < t" using False assms by (simp_all add: t_def)
  have x: "x = 1 / t" by (simp add: t_def)
  from halvings_bounds[OF t(1)] have b: "2 powi h \<le> t" "t < 2 powi (h + 1)"
    by (simp_all add: h_def)
  have pos: "0 < (2::rat) powi k" for k by simp
  show ?thesis
  proof (cases "2 powi h = t")
    case True
    then have f: "floor_log2 x = - h"
      using False by (simp add: floor_log2_def h_def t_def Let_def)
    have "x = 2 powi (- h)"
      unfolding x True[symmetric] by (simp add: power_int_minus inverse_eq_divide)
    moreover have "(2::rat) powi (- h) < 2 powi (- h + 1)"
      by (rule power_int_strict_increasing) simp_all
    ultimately show ?thesis unfolding f by simp
  next
    case False
    with \<open>\<not> 1 \<le> x\<close> have f: "floor_log2 x = - h - 1"
      by (simp add: floor_log2_def h_def t_def Let_def)
    from False b have lt: "2 powi h < t" by simp
    have "(2::rat) powi (- h - 1) = 2 powi (- (h + 1))" by simp
    also have "\<dots> = 1 / 2 powi (h + 1)"
      by (simp only: power_int_minus inverse_eq_divide)
    also have "\<dots> < 1 / t" using b(2) t(2)
      by (simp add: frac_less2)
    finally have lo: "2 powi (- h - 1) \<le> x" unfolding x by simp
    have "1 / t < 1 / 2 powi h" using lt pos[of h]
      by (simp add: frac_less2)
    also have "\<dots> = 2 powi (- h - 1 + 1)"
      by (simp add: power_int_minus inverse_eq_divide)
    finally have hi: "x < 2 powi (- h - 1 + 1)" unfolding x .
    from lo hi show ?thesis unfolding f by simp
  qed
qed


lemma round_half_even_ge: "of_int m \<le> t \<Longrightarrow> m \<le> round_half_even t"
proof -
  assume "of_int m \<le> t"
  then have "m \<le> \<lfloor>t\<rfloor>" by (simp add: le_floor_iff)
  then show ?thesis by (auto simp: round_half_even_def Let_def)
qed

lemma round_half_even_le: "t \<le> of_int m \<Longrightarrow> round_half_even t \<le> m"
proof (cases "t = of_int m")
  case True
  then show ?thesis by (simp add: round_half_even_def)
next
  case False
  assume "t \<le> of_int m"
  with False have "t < of_int m" by simp
  then have "\<lfloor>t\<rfloor> < m" by (simp add: floor_less_iff)
  then show ?thesis by (auto simp: round_half_even_def Let_def)
qed

text \<open>The spacing of the binary64 values around a number is at most its magnitude.\<close>

lemma quantum_le:
  assumes "x \<noteq> 0" and "2 powi (- 1074) \<le> \<bar>x\<bar>"
  shows "2 powi (max (floor_log2 \<bar>x\<bar>) (- 1022) - 52) \<le> \<bar>x\<bar>"
proof (cases "- 1022 \<le> floor_log2 \<bar>x\<bar>")
  case True
  have "(2::rat) powi (floor_log2 \<bar>x\<bar> - 52) \<le> 2 powi floor_log2 \<bar>x\<bar>"
    by (rule power_int_increasing) simp_all
  also have "\<dots> \<le> \<bar>x\<bar>" using floor_log2_bounds[of "\<bar>x\<bar>"] assms(1) by simp
  finally show ?thesis using True by (simp add: max_def)
next
  case False
  then have "max (floor_log2 \<bar>x\<bar>) (- 1022) - 52 = - 1074" by simp
  with assms(2) show ?thesis by simp
qed

lemma round64_sign:
  assumes "2 powi (- 1074) \<le> \<bar>x\<bar>"
  shows "(0 < round64 x \<longleftrightarrow> 0 < x) \<and> (round64 x < 0 \<longleftrightarrow> x < 0)"
proof -
  have pos: "(0::rat) < 2 powi (- 1074)" by simp
  with assms have nz: "x \<noteq> 0" by auto
  define q :: rat where "q = 2 powi (max (floor_log2 \<bar>x\<bar>) (- 1022) - 52)"
  have q: "0 < q" by (simp add: q_def)
  have qx: "q \<le> \<bar>x\<bar>" unfolding q_def using nz assms by (rule quantum_le)
  have r: "round64 x = of_int (round_half_even (x / q)) * q"
    using nz by (simp add: round64_def q_def Let_def)
  show ?thesis
  proof (cases "0 < x")
    case True
    with qx q have "of_int 1 \<le> x / q" by (simp add: le_divide_eq)
    then have "1 \<le> round_half_even (x / q)" by (rule round_half_even_ge)
    then have "0 < round64 x" unfolding r using q by simp
    with True show ?thesis by simp
  next
    case False
    with nz have neg: "x < 0" by simp
    with qx q have "x / q \<le> of_int (- 1)" by (simp add: divide_le_eq)
    then have "round_half_even (x / q) \<le> - 1" by (rule round_half_even_le)
    then have "of_int (round_half_even (x / q)) < (0::rat)" by simp
    then have "round64 x < 0" unfolding r using q by (simp add: mult_less_0_iff)
    with neg show ?thesis by simp
  qed
qed


lemma round64_multiple: "\<exists>k::int. round64 x = of_int k * 2 powi (- 1074)"
proof (cases "x = 0")
  case True
  then have "round64 x = of_int 0 * 2 powi (- 1074)" by (simp add: round64_def)
  then show ?thesis by blast
next
  case False
  define e where "e = max (floor_log2 \<bar>x\<bar>) (- 1022)"
  define n where "n = round_half_even (x / 2 powi (e - 52))"
  have r: "round64 x = of_int n * 2 powi (e - 52)"
    using False by (simp add: round64_def e_def n_def Let_def)
  have e: "0 \<le> e + 1022" by (simp add: e_def)
  have "(2::rat) powi (e - 52) = 2 powi ((e + 1022) + (- 1074))" by simp
  also have "\<dots> = 2 powi (e + 1022) * 2 powi (- 1074)"
    by (rule power_int_add) simp
  also have "(2::rat) powi (e + 1022) = of_int (2 ^ nat (e + 1022))"
    using e by (simp add: power_int_def)
  finally have "round64 x = of_int (n * 2 ^ nat (e + 1022)) * 2 powi (- 1074)"
    unfolding r by simp
  then show ?thesis by blast
qed

lemma binary64_multiple: "is_binary64 x \<Longrightarrow> \<exists>k::int. x = of_int k * 2 powi (- 1074)"
  using round64_multiple[of x] by (simp add: is_binary64_def)

lemma binary64_apart:
  assumes "is_binary64 a" and "is_binary64 b" and "a \<noteq> b"
  shows "2 powi (- 1074) \<le> \<bar>a - b\<bar>"
proof -
  define u :: rat where "u = 2 powi (- 1074)"
  have u: "0 < u" by (simp add: u_def)
  from binary64_multiple[OF assms(1)] obtain i :: int where i: "a = of_int i * u"
    unfolding u_def by blast
  from binary64_multiple[OF assms(2)] obtain j :: int where j: "b = of_int j * u"
    unfolding u_def by blast
  from assms(3) i j have "i \<noteq> j" by auto
  then have "1 \<le> \<bar>i - j\<bar>" by simp
  then have "(1::rat) \<le> of_int \<bar>i - j\<bar>" by (simp only: of_int_1_le_iff)
  then have one: "(1::rat) \<le> \<bar>of_int (i - j)\<bar>" by simp
  have "a - b = of_int (i - j) * u"
    unfolding i j by (simp add: left_diff_distrib)
  then have "\<bar>a - b\<bar> = \<bar>of_int (i - j)\<bar> * u"
    using u by (simp add: abs_mult)
  moreover have "1 * u \<le> \<bar>of_int (i - j)\<bar> * u"
    using one u by (intro mult_right_mono) simp_all
  ultimately show ?thesis unfolding u_def by simp
qed

lemma round64_zero: "round64 0 = 0"
  by (simp add: round64_def)

lemma fsub_sign:
  assumes "is_binary64 a" and "is_binary64 b"
  shows "(fsub a b < 0 \<longleftrightarrow> a < b) \<and> (fsub a b = 0 \<longleftrightarrow> a = b) \<and> (0 < fsub a b \<longleftrightarrow> b < a)"
proof (cases "a = b")
  case True
  then show ?thesis by (simp add: fsub_def round64_zero)
next
  case False
  from round64_sign[OF binary64_apart[OF assms False]] False show ?thesis
    unfolding fsub_def by auto
qed

lemma round64_within_tolerance:
  assumes "\<bar>d\<bar> \<le> 5 / 2"
  shows "\<bar>round64 d\<bar> \<le> 5 / 2"
proof (cases "d = 0")
  case True
  then show ?thesis by (simp add: round64_zero)
next
  case False
  define e where "e = max (floor_log2 \<bar>d\<bar>) (- 1022)"
  define q :: rat where "q = 2 powi (e - 52)"
  define n where "n = round_half_even (d / q)"
  define M :: int where "M = 5 * 2 ^ nat (51 - e)"
  have r: "round64 d = of_int n * q"
    using False by (simp add: round64_def e_def q_def n_def Let_def)
  have q: "0 < q" by (simp add: q_def)
  have "floor_log2 \<bar>d\<bar> < 2"
  proof (rule ccontr)
    assume "\<not> floor_log2 \<bar>d\<bar> < 2"
    then have "(2::rat) powi 2 \<le> 2 powi floor_log2 \<bar>d\<bar>"
      by (intro power_int_increasing) simp_all
    also have "\<dots> \<le> \<bar>d\<bar>" using floor_log2_bounds[of "\<bar>d\<bar>"] False by simp
    finally show False using assms by simp
  qed
  then have e: "0 \<le> 51 - e" by (simp add: e_def)
  have "of_int M * q = 5 * (2 powi (51 - e) * 2 powi (e - 52))"
    using e by (simp add: M_def q_def power_int_def)
  also have "2 powi (51 - e) * 2 powi (e - 52) = (2::rat) powi ((51 - e) + (e - 52))"
    by (rule power_int_add[symmetric]) simp
  finally have Mq: "of_int M * q = 5 / 2" by simp
  from assms have "d \<le> 5 / 2" "- (5 / 2) \<le> d"
    by (simp_all add: abs_le_iff)
  then have "d \<le> of_int M * q" "- (of_int M * q) \<le> d"
    unfolding Mq by simp_all
  then have "d \<le> of_int M * q" "of_int (- M) * q \<le> d"
    by simp_all
  then have "d / q \<le> of_int M" "of_int (- M) \<le> d / q"
    using q by (simp_all only: divide_le_eq le_divide_eq if_True)
  then have "n \<le> M" "- M \<le> n"
    unfolding n_def by (simp_all add: round_half_even_le round_half_even_ge)
  then have "(of_int n :: rat) \<le> of_int M" "(of_int (- M) :: rat) \<le> of_int n"
    by (simp_all only: of_int_le_iff)
  then have "of_int n * q \<le> of_int M * q" "of_int (- M) * q \<le> of_int n * q"
    using q by (simp_all only: mult_le_cancel_right_pos)
  then have "of_int n * q \<le> 5 / 2" "- (5 / 2) \<le> of_int n * q"
    using Mq by simp_all
  then show ?thesis unfolding r by (simp add: abs_le_iff)
qed

lemma fsub_within_tolerance: "\<bar>a - b\<bar> \<le> 5 / 2 \<Longrightarrow> \<bar>fsub a b\<bar> \<le> 5 / 2"
  unfolding fsub_def by (rule round64_within_tolerance)

section \<open>Reading order of a PDF page\<close>

lemma mset_insort_cmp: "mset (insort_cmp cmp a bs) = add_mset a (mset bs)"
  by (induction bs) auto

lemma mset_js_sort: "mset (js_sort cmp xs) = mset xs"
  unfolding js_sort_def by (induction xs) (auto simp: mset_insort_cmp)

lemma set_insort_cmp: "set (insort_cmp cmp a bs) = insert a (set bs)"
  by (induction bs) auto

lemma set_js_sort: "set (js_sort cmp xs) = set xs"
  using mset_js_sort[of cmp xs] by (metis set_mset_mset)

text \<open>
  The sort puts the elements in the order of the comparator wherever the comparator
  decides a total preorder, here on a set \<open>S\<close> that holds the elements.
\<close>

lemma sorted_insort_cmp:
  assumes mem: "a \<in> S" "set bs \<subseteq> S" "sorted_wrt le bs"
    and total: "\<And>a b. a \<in> S \<Longrightarrow> b \<in> S \<Longrightarrow> \<not> le a b \<Longrightarrow> le b a"
    and trans: "\<And>a b c. a \<in> S \<Longrightarrow> b \<in> S \<Longrightarrow> c \<in> S \<Longrightarrow> le a b \<Longrightarrow> le b c \<Longrightarrow> le a c"
    and le: "\<And>a b. a \<in> S \<Longrightarrow> b \<in> S \<Longrightarrow> le a b \<longleftrightarrow> cmp a b \<le> 0"
  shows "sorted_wrt le (insort_cmp cmp a bs)"
  using mem
proof (induction bs)
  case Nil
  show ?case by simp
next
  case (Cons b bs)
  then have mem: "a \<in> S" "b \<in> S" "set bs \<subseteq> S" by simp_all
  show ?case
  proof (cases "cmp a b \<le> 0")
    case True
    then have ab: "le a b" using le mem by simp
    have "le a y" if "y \<in> set bs" for y
    proof -
      from that Cons.prems(3) have "le b y" by simp
      with ab show ?thesis using trans[of a b y] mem that by blast
    qed
    with ab Cons.prems True show ?thesis by auto
  next
    case False
    then have "\<not> le a b" using le mem by simp
    then have "le b a" using total mem by blast
    moreover have "sorted_wrt le (insort_cmp cmp a bs)"
      using Cons.IH mem Cons.prems(3) by simp
    ultimately show ?thesis
      using False Cons.prems(3) by (auto simp: set_insort_cmp)
  qed
qed

lemma sorted_js_sort:
  assumes sub: "set xs \<subseteq> S"
    and total: "\<And>a b. a \<in> S \<Longrightarrow> b \<in> S \<Longrightarrow> \<not> le a b \<Longrightarrow> le b a"
    and trans: "\<And>a b c. a \<in> S \<Longrightarrow> b \<in> S \<Longrightarrow> c \<in> S \<Longrightarrow> le a b \<Longrightarrow> le b c \<Longrightarrow> le a c"
    and le: "\<And>a b. a \<in> S \<Longrightarrow> b \<in> S \<Longrightarrow> le a b \<longleftrightarrow> cmp a b \<le> 0"
  shows "sorted_wrt le (js_sort cmp xs)"
  using sub
proof (induction xs)
  case Nil
  show ?case by (simp add: js_sort_def)
next
  case (Cons x xs)
  have x: "x \<in> S" using Cons.prems by simp
  have s: "sorted_wrt le (js_sort cmp xs)" using Cons by simp
  have m: "set (js_sort cmp xs) \<subseteq> S" using Cons.prems by (simp add: set_js_sort)
  have "sorted_wrt le (insort_cmp cmp x (js_sort cmp xs))"
  proof (rule sorted_insort_cmp[where S = S, OF x m s])
    show "\<And>a b. a \<in> S \<Longrightarrow> b \<in> S \<Longrightarrow> \<not> le a b \<Longrightarrow> le b a" by (rule total)
    show "\<And>a b c. a \<in> S \<Longrightarrow> b \<in> S \<Longrightarrow> c \<in> S \<Longrightarrow> le a b \<Longrightarrow> le b c \<Longrightarrow> le a c" by (rule trans)
    show "\<And>a b. a \<in> S \<Longrightarrow> b \<in> S \<Longrightarrow> le a b \<longleftrightarrow> cmp a b \<le> 0" by (rule le)
  qed
  then show ?case by (simp add: js_sort_def)
qed

lemma compare_rows_le:
  assumes "is_binary64 (row_x a)" "is_binary64 (row_y a)"
    and "is_binary64 (row_x b)" "is_binary64 (row_y b)"
  shows "compare_rows a b \<le> 0 \<longleftrightarrow>
         row_y b < row_y a \<or> (row_y a = row_y b \<and> row_x a \<le> row_x b)"
  using fsub_sign[OF assms(4,2)] fsub_sign[OF assms(1,3)]
  by (auto simp: compare_rows_def)

lemma sorted_sort_rows:
  assumes "\<forall>r\<in>set rows. is_binary64 (row_x r) \<and> is_binary64 (row_y r)"
  shows "sorted_wrt (\<lambda>a b. row_y b < row_y a \<or> (row_y a = row_y b \<and> row_x a \<le> row_x b))
           (sort_rows rows)"
  unfolding sort_rows_def
proof (rule sorted_js_sort[where S = "{r. is_binary64 (row_x r) \<and> is_binary64 (row_y r)}"])
  show "set rows \<subseteq> {r. is_binary64 (row_x r) \<and> is_binary64 (row_y r)}"
    using assms by auto
qed (auto simp: compare_rows_le)

lemma compare_parts_le:
  "is_binary64 (part_x a) \<Longrightarrow> is_binary64 (part_x b) \<Longrightarrow>
   compare_parts a b \<le> 0 \<longleftrightarrow> part_x a \<le> part_x b"
  using fsub_sign[of "part_x a" "part_x b"] by (auto simp: compare_parts_def)

lemma sorted_parts:
  assumes "\<forall>p\<in>set ps. is_binary64 (part_x p)"
  shows "sorted_wrt (\<lambda>a b. part_x a \<le> part_x b) (js_sort compare_parts ps)"
proof (rule sorted_js_sort[where S = "{p. is_binary64 (part_x p)}"])
  show "set ps \<subseteq> {p. is_binary64 (part_x p)}"
    using assms by auto
qed (auto simp: compare_parts_le)

lemma find_index_None: "find_index P xs = None \<longleftrightarrow> (\<forall>x\<in>set xs. \<not> P x)"
  by (induction xs) auto

lemma find_index_Some:
  "find_index P xs = Some i \<Longrightarrow> i < length xs \<and> P (xs ! i) \<and> (\<forall>j<i. \<not> P (xs ! j))"
proof (induction xs arbitrary: i)
  case Nil
  then show ?case by simp
next
  case (Cons x xs)
  show ?case
  proof (cases "P x")
    case True
    with Cons.prems show ?thesis by simp
  next
    case False
    with Cons.prems obtain k where k: "find_index P xs = Some k" "i = Suc k" by auto
    from Cons.IH[OF k(1)] False k(2) show ?thesis
      by (auto simp: nth_Cons split: nat.splits)
  qed
qed

lemma place_row_open:
  "\<forall>l\<in>set lines. \<not> near_line r l \<Longrightarrow>
   place_row r lines = lines @ [\<lparr>line_y = row_y r, line_parts = [part_of r]\<rparr>]"
  by (simp add: place_row_def find_index_None[THEN iffD2])

lemma place_row_join:
  assumes "\<exists>l\<in>set lines. near_line r l"
  shows "\<exists>i<length lines. near_line r (lines ! i) \<and> (\<forall>j<i. \<not> near_line r (lines ! j)) \<and>
           place_row r lines =
             lines[i := (lines ! i)\<lparr>line_parts := line_parts (lines ! i) @ [part_of r]\<rparr>]"
proof -
  from assms have "find_index (near_line r) lines \<noteq> None"
    by (simp add: find_index_None)
  then obtain i where i: "find_index (near_line r) lines = Some i" by auto
  from find_index_Some[OF i] i show ?thesis
    by (auto simp: place_row_def)
qed

text \<open>The page of the specification: \<open>World\<close> at (50, 100), \<open>Hello\<close> at (0, 100), \<open>Second\<close> at (0, 50).\<close>

lemma sample_page:
  "pagerender (Some
     [\<lparr>str = [0x57, 0x6F, 0x72, 0x6C, 0x64], transform = (1, 0, 0, 1, 50, 100)\<rparr>,
      \<lparr>str = [0x48, 0x65, 0x6C, 0x6C, 0x6F], transform = (1, 0, 0, 1, 0, 100)\<rparr>,
      \<lparr>str = [0x53, 0x65, 0x63, 0x6F, 0x6E, 0x64], transform = (1, 0, 0, 1, 0, 50)\<rparr>]) =
   [0x48, 0x65, 0x6C, 0x6C, 0x6F, 0x20, 0x57, 0x6F, 0x72, 0x6C, 0x64, 0x0A,
    0x53, 0x65, 0x63, 0x6F, 0x6E, 0x64]"
  by code_simp

text \<open>
  C3, as the code has it. The rows of a page, whose coordinates are binary64 numbers, are
  sorted by descending \<open>y\<close>, then ascending \<open>x\<close>, and the sort only permutes them. A row
  joins the first existing line for which the binary64 difference between the
  representative \<open>y\<close> of the line (the \<open>y\<close> of the row that opened it) and its own \<open>y\<close> is
  at most 2.5 in absolute value, exactly when there is such a line; otherwise it opens a
  new line after the others. A line whose representative \<open>y\<close> is exactly within 2.5 of
  the row's is such a line. The text of a line is its parts sorted by ascending \<open>x\<close> and
  joined by single spaces, and the page is its lines joined by line feeds. On the page of
  the specification the result is \<open>Hello World\<close>, a line feed, \<open>Second\<close>.
\<close>

theorem pdf_reading_order:
  "((\<forall>r\<in>set rows. is_binary64 (row_x r) \<and> is_binary64 (row_y r)) \<longrightarrow>
      sorted_wrt (\<lambda>a b. row_y b < row_y a \<or> (row_y a = row_y b \<and> row_x a \<le> row_x b))
        (sort_rows rows)) \<and>
   mset (sort_rows rows) = mset rows \<and>
   ((\<exists>l\<in>set lines. \<bar>fsub (line_y l) (row_y r)\<bar> \<le> 5 / 2) \<longrightarrow>
      (\<exists>i<length lines.
         \<bar>fsub (line_y (lines ! i)) (row_y r)\<bar> \<le> 5 / 2 \<and>
         (\<forall>j<i. \<not> \<bar>fsub (line_y (lines ! j)) (row_y r)\<bar> \<le> 5 / 2) \<and>
         place_row r lines =
           lines[i := (lines ! i)\<lparr>line_parts := line_parts (lines ! i) @
                        [\<lparr>part_x = row_x r, part_text = row_text r\<rparr>]\<rparr>])) \<and>
   ((\<forall>l\<in>set lines. \<not> \<bar>fsub (line_y l) (row_y r)\<bar> \<le> 5 / 2) \<longrightarrow>
      place_row r lines =
        lines @ [\<lparr>line_y = row_y r, line_parts = [\<lparr>part_x = row_x r, part_text = row_text r\<rparr>]\<rparr>]) \<and>
   (\<bar>line_y l - row_y r\<bar> \<le> 5 / 2 \<longrightarrow> \<bar>fsub (line_y l) (row_y r)\<bar> \<le> 5 / 2) \<and>
   ((\<forall>p\<in>set (line_parts l). is_binary64 (part_x p)) \<longrightarrow>
      sorted_wrt (\<lambda>a b. part_x a \<le> part_x b) (js_sort compare_parts (line_parts l))) \<and>
   mset (js_sort compare_parts (line_parts l)) = mset (line_parts l) \<and>
   line_text l = join [0x20] (map part_text (js_sort compare_parts (line_parts l))) \<and>
   pagerender (Some items) =
     join [0x0A] (map line_text (fold place_row (sort_rows (map row_of items)) [])) \<and>
   pagerender (Some
     [\<lparr>str = [0x57, 0x6F, 0x72, 0x6C, 0x64], transform = (1, 0, 0, 1, 50, 100)\<rparr>,
      \<lparr>str = [0x48, 0x65, 0x6C, 0x6C, 0x6F], transform = (1, 0, 0, 1, 0, 100)\<rparr>,
      \<lparr>str = [0x53, 0x65, 0x63, 0x6F, 0x6E, 0x64], transform = (1, 0, 0, 1, 0, 50)\<rparr>]) =
   [0x48, 0x65, 0x6C, 0x6C, 0x6F, 0x20, 0x57, 0x6F, 0x72, 0x6C, 0x64, 0x0A,
    0x53, 0x65, 0x63, 0x6F, 0x6E, 0x64]"
proof -
  have near: "near_line r c \<longleftrightarrow> \<bar>fsub (line_y c) (row_y r)\<bar> \<le> 5 / 2" for c
    by (simp add: near_line_def lineTol_def)
  have part: "part_of r = \<lparr>part_x = row_x r, part_text = row_text r\<rparr>"
    by (simp add: part_of_def)
  have a: "(\<forall>r\<in>set rows. is_binary64 (row_x r) \<and> is_binary64 (row_y r)) \<longrightarrow>
      sorted_wrt (\<lambda>a b. row_y b < row_y a \<or> (row_y a = row_y b \<and> row_x a \<le> row_x b))
        (sort_rows rows)"
    using sorted_sort_rows[of rows] by blast
  have b: "mset (sort_rows rows) = mset rows"
    by (simp add: sort_rows_def mset_js_sort)
  have c: "(\<exists>l\<in>set lines. \<bar>fsub (line_y l) (row_y r)\<bar> \<le> 5 / 2) \<longrightarrow>
      (\<exists>i<length lines.
         \<bar>fsub (line_y (lines ! i)) (row_y r)\<bar> \<le> 5 / 2 \<and>
         (\<forall>j<i. \<not> \<bar>fsub (line_y (lines ! j)) (row_y r)\<bar> \<le> 5 / 2) \<and>
         place_row r lines =
           lines[i := (lines ! i)\<lparr>line_parts := line_parts (lines ! i) @
                        [\<lparr>part_x = row_x r, part_text = row_text r\<rparr>]\<rparr>])"
    using place_row_join[of lines r] unfolding near part by blast
  have d: "(\<forall>l\<in>set lines. \<not> \<bar>fsub (line_y l) (row_y r)\<bar> \<le> 5 / 2) \<longrightarrow>
      place_row r lines =
        lines @ [\<lparr>line_y = row_y r, line_parts = [\<lparr>part_x = row_x r, part_text = row_text r\<rparr>]\<rparr>]"
    using place_row_open[of lines r] unfolding near part by blast
  have t: "\<bar>line_y l - row_y r\<bar> \<le> 5 / 2 \<longrightarrow> \<bar>fsub (line_y l) (row_y r)\<bar> \<le> 5 / 2"
    using fsub_within_tolerance[of "line_y l" "row_y r"] by blast
  have e: "(\<forall>p\<in>set (line_parts l). is_binary64 (part_x p)) \<longrightarrow>
      sorted_wrt (\<lambda>a b. part_x a \<le> part_x b) (js_sort compare_parts (line_parts l))"
    using sorted_parts[of "line_parts l"] by blast
  have f: "mset (js_sort compare_parts (line_parts l)) = mset (line_parts l)"
    by (rule mset_js_sort)
  have g: "line_text l = join [0x20] (map part_text (js_sort compare_parts (line_parts l)))"
    by (simp add: line_text_def)
  have h: "pagerender (Some items) =
     join [0x0A] (map line_text (fold place_row (sort_rows (map row_of items)) []))"
    by (simp add: pagerender_def group_lines_def)
  from a b c d t e f g h sample_page show ?thesis
    by (intro conjI)
qed

text \<open>
  A row at \<open>y\<close> 101 joins the line opened at \<open>y\<close> 100 and not the one opened at 104, and
  opens a line when only the one at 104 is there; the rows of the page of the
  specification and the parts of a line come out sorted.
\<close>

lemma sample_rounding:
  "round64 0 = 0" "round64 50 = 50" "round64 100 = 100"
  "round64 (5 / 2) = 5 / 2" "round64 (- 1 / 2 ^ 60) = - 1 / 2 ^ 60"
  "fsub 104 101 = 3" "fsub 100 101 = - 1"
  by code_simp+

lemma is_binary64I: "round64 x = x \<Longrightarrow> \<bar>x\<bar> < 2 ^ 1024 \<Longrightarrow> is_binary64 x"
  by (simp add: is_binary64_def)

lemma sample_numbers:
  "is_binary64 0" "is_binary64 50" "is_binary64 100"
  "is_binary64 (5 / 2)" "is_binary64 (- 1 / 2 ^ 60)"
  by (rule is_binary64I, rule sample_rounding, simp)+

theorem pdf_reading_order_witness:
  "\<bar>fsub (line_y \<lparr>line_y = 100, line_parts = [\<lparr>part_x = 0, part_text = [0x48]\<rparr>]\<rparr>)
      (row_y \<lparr>row_x = 50, row_y = 101, row_text = [0x57]\<rparr>)\<bar> \<le> 5 / 2 \<and>
   place_row \<lparr>row_x = 50, row_y = 101, row_text = [0x57]\<rparr>
     [\<lparr>line_y = 104, line_parts = [\<lparr>part_x = 7, part_text = [0x41]\<rparr>]\<rparr>,
      \<lparr>line_y = 100, line_parts = [\<lparr>part_x = 0, part_text = [0x48]\<rparr>]\<rparr>] =
     [\<lparr>line_y = 104, line_parts = [\<lparr>part_x = 7, part_text = [0x41]\<rparr>]\<rparr>,
      \<lparr>line_y = 100, line_parts = [\<lparr>part_x = 0, part_text = [0x48]\<rparr>,
                                    \<lparr>part_x = 50, part_text = [0x57]\<rparr>]\<rparr>] \<and>
   place_row \<lparr>row_x = 50, row_y = 101, row_text = [0x57]\<rparr>
     [\<lparr>line_y = 104, line_parts = [\<lparr>part_x = 7, part_text = [0x41]\<rparr>]\<rparr>] =
     [\<lparr>line_y = 104, line_parts = [\<lparr>part_x = 7, part_text = [0x41]\<rparr>]\<rparr>,
      \<lparr>line_y = 101, line_parts = [\<lparr>part_x = 50, part_text = [0x57]\<rparr>]\<rparr>] \<and>
   sorted_wrt (\<lambda>a b. row_y b < row_y a \<or> (row_y a = row_y b \<and> row_x a \<le> row_x b))
     (sort_rows
        [\<lparr>row_x = 50, row_y = 100, row_text = [0x57]\<rparr>,
         \<lparr>row_x = 0, row_y = 100, row_text = [0x48]\<rparr>,
         \<lparr>row_x = 0, row_y = 50, row_text = [0x53]\<rparr>]) \<and>
   sorted_wrt (\<lambda>a b. part_x a \<le> part_x b)
     (js_sort compare_parts
        [\<lparr>part_x = 50, part_text = [0x57]\<rparr>, \<lparr>part_x = 0, part_text = [0x48]\<rparr>])"
proof -
  let ?r = "\<lparr>row_x = 50, row_y = 101, row_text = [0x57]\<rparr>"
  let ?top = "\<lparr>line_y = 104, line_parts = [\<lparr>part_x = 7, part_text = [0x41]\<rparr>]\<rparr>"
  let ?l = "\<lparr>line_y = 100, line_parts = [\<lparr>part_x = 0, part_text = [0x48]\<rparr>]\<rparr>"
  let ?two = "\<lparr>line_y = 100, line_parts =
      [\<lparr>part_x = 50, part_text = [0x57]\<rparr>, \<lparr>part_x = 0, part_text = [0x48::code_unit]\<rparr>]\<rparr>"
  let ?rows = "[\<lparr>row_x = 50, row_y = 100, row_text = [0x57]\<rparr>,
         \<lparr>row_x = 0, row_y = 100, row_text = [0x48]\<rparr>,
         \<lparr>row_x = 0, row_y = 50, row_text = [0x53::code_unit]\<rparr>]"
  have exact: "\<bar>line_y ?l - row_y ?r\<bar> \<le> 5 / 2" by simp
  have within: "\<bar>fsub (line_y ?l) (row_y ?r)\<bar> \<le> 5 / 2"
    using exact pdf_reading_order[of "[]" "[]" ?r ?l "[]"] by blast
  have far: "\<forall>c\<in>set [?top]. \<not> \<bar>fsub (line_y c) (row_y ?r)\<bar> \<le> 5 / 2"
    by (simp add: sample_rounding)
  have opened: "place_row ?r [?top] =
      [?top] @ [\<lparr>line_y = row_y ?r, line_parts = [\<lparr>part_x = row_x ?r, part_text = row_text ?r\<rparr>]\<rparr>]"
    using far pdf_reading_order[of "[]" "[?top]" ?r ?l "[]"] by blast
  have close: "\<exists>c\<in>set [?top, ?l]. \<bar>fsub (line_y c) (row_y ?r)\<bar> \<le> 5 / 2"
    using within by simp
  then obtain i where i: "i < length [?top, ?l]"
      "\<bar>fsub (line_y ([?top, ?l] ! i)) (row_y ?r)\<bar> \<le> 5 / 2"
      "place_row ?r [?top, ?l] =
         [?top, ?l][i := ([?top, ?l] ! i)\<lparr>line_parts := line_parts ([?top, ?l] ! i) @
            [\<lparr>part_x = row_x ?r, part_text = row_text ?r\<rparr>]\<rparr>]"
    using pdf_reading_order[of "[]" "[?top, ?l]" ?r ?l "[]"] by blast
  from i(1) have "i = 0 \<or> i = 1" by auto
  with i(2) have "i = 1" by (auto simp: sample_rounding)
  with i(3) have joined: "place_row ?r [?top, ?l] =
      [?top, ?l\<lparr>line_parts := line_parts ?l @ [\<lparr>part_x = 50, part_text = [0x57]\<rparr>]\<rparr>]"
    by simp
  have doubles: "\<forall>r\<in>set ?rows. is_binary64 (row_x r) \<and> is_binary64 (row_y r)"
    by (simp add: sample_numbers)
  have sorted: "sorted_wrt (\<lambda>a b. row_y b < row_y a \<or> (row_y a = row_y b \<and> row_x a \<le> row_x b))
      (sort_rows ?rows)"
    using doubles pdf_reading_order[of ?rows "[]" ?r ?l "[]"] by blast
  have "\<forall>p\<in>set (line_parts ?two). is_binary64 (part_x p)"
    by (simp add: sample_numbers)
  then have "sorted_wrt (\<lambda>a b. part_x a \<le> part_x b) (js_sort compare_parts (line_parts ?two))"
    using pdf_reading_order[of "[]" "[]" ?r ?two "[]"] by blast
  then have parts: "sorted_wrt (\<lambda>a b. part_x a \<le> part_x b)
      (js_sort compare_parts
         [\<lparr>part_x = 50, part_text = [0x57]\<rparr>, \<lparr>part_x = 0, part_text = [0x48]\<rparr>])"
    by simp
  from within joined opened sorted parts show ?thesis by simp
qed

text \<open>
  C3 as stated fails at the edge of the tolerance. Take \<open>p\<close> at (0, 2.5) and \<open>q\<close> at
  (10, -1 / 2 ^ 60), both binary64 numbers. The distance of the two \<open>y\<close> is more than 2.5,
  but the binary64 difference is 2.5, so \<open>q\<close> joins the line of \<open>p\<close>: the page is \<open>p q\<close>
  on one line, not two lines.
\<close>

lemma edge_page:
  "pagerender (Some
     [\<lparr>str = [0x70], transform = (1, 0, 0, 1, 0, 5 / 2)\<rparr>,
      \<lparr>str = [0x71], transform = (1, 0, 0, 1, 10, - 1 / 2 ^ 60)\<rparr>]) = [0x70, 0x20, 0x71]"
  by code_simp

theorem pdf_line_joined_beyond_tolerance:
  "pagerender (Some
     [\<lparr>str = [0x70], transform = (1, 0, 0, 1, 0, 5 / 2)\<rparr>,
      \<lparr>str = [0x71], transform = (1, 0, 0, 1, 10, - 1 / 2 ^ 60)\<rparr>]) = [0x70, 0x20, 0x71] \<and>
   is_binary64 (5 / 2) \<and> is_binary64 (- 1 / 2 ^ 60) \<and>
   \<not> \<bar>5 / 2 - (- 1 / 2 ^ 60 :: rat)\<bar> \<le> 5 / 2"
proof -
  have "\<not> \<bar>5 / 2 - (- 1 / 2 ^ 60 :: rat)\<bar> \<le> 5 / 2" by simp
  with edge_page sample_numbers(4,5) show ?thesis by (intro conjI)
qed

section \<open>Retrieval with fallback\<close>

lemma retrieve_tries_skip:
  assumes "i \<le> length ts"
    and "\<forall>j<i. empty_answer (supabase (length calls + j) (rpc_of (ts ! j)) (args_of q (ts ! j)))"
  shows "retrieve_tries q supabase calls ts =
         retrieve_tries q supabase (calls @ take i (map (call_of q) ts)) (drop i ts)"
  using assms
proof (induction i arbitrary: calls ts)
  case 0
  show ?case by simp
next
  case (Suc i)
  then obtain t rest where ts: "ts = t # rest" by (cases ts) auto
  from Suc.prems(2) have e: "empty_answer (supabase (length calls) (rpc_of t) (args_of q t))"
    using ts by force
  have step: "retrieve_tries q supabase calls (t # rest) =
      retrieve_tries q supabase (calls @ [call_of q t]) rest"
    using e by (auto simp: empty_answer_def call_of_def Let_def)
  have "i \<le> length rest" using Suc.prems(1) ts by simp
  moreover have "\<forall>j<i. empty_answer (supabase (length (calls @ [call_of q t]) + j)
          (rpc_of (rest ! j)) (args_of q (rest ! j)))"
    using Suc.prems(2) ts by force
  ultimately have "retrieve_tries q supabase (calls @ [call_of q t]) rest =
      retrieve_tries q supabase ((calls @ [call_of q t]) @ take i (map (call_of q) rest))
        (drop i rest)"
    by (rule Suc.IH)
  with step ts show ?case by simp
qed

lemma retrieve_tries_at:
  assumes "i < length ts"
    and "\<forall>j<i. empty_answer (supabase (length calls + j) (rpc_of (ts ! j)) (args_of q (ts ! j)))"
  shows "retrieve_tries q supabase calls ts =
         retrieve_tries q supabase (calls @ take i (map (call_of q) ts)) (ts ! i # drop (Suc i) ts)"
  using retrieve_tries_skip[of i ts supabase calls q] assms
  by (simp add: Cons_nth_drop_Suc)

lemma take_Suc_calls:
  "i < length ts \<Longrightarrow>
   take i (map (call_of q) ts) @ [(rpc_of (ts ! i), args_of q (ts ! i))] =
   take (Suc i) (map (call_of q) ts)"
  by (simp add: take_Suc_conv_app_nth call_of_def)

lemma retrieve_tries_match:
  assumes "i < length ts"
    and "\<forall>j<i. empty_answer (supabase (length calls + j) (rpc_of (ts ! j)) (args_of q (ts ! j)))"
    and "resp_error (supabase (length calls + i) (rpc_of (ts ! i)) (args_of q (ts ! i))) = None"
    and "resp_data (supabase (length calls + i) (rpc_of (ts ! i)) (args_of q (ts ! i))) = Some matches"
    and "matches \<noteq> []"
  shows "retrieve_tries q supabase calls ts =
         (calls @ take (Suc i) (map (call_of q) ts), Inr matches)"
proof -
  have "retrieve_tries q supabase (calls @ take i (map (call_of q) ts)) (ts ! i # drop (Suc i) ts) =
      (calls @ take i (map (call_of q) ts) @ [(rpc_of (ts ! i), args_of q (ts ! i))], Inr matches)"
    using assms(1,3,4,5) by (simp add: Let_def min_absorb2)
  then show ?thesis
    using retrieve_tries_at[OF assms(1,2)] take_Suc_calls[OF assms(1), of q] by simp
qed

lemma retrieve_tries_error:
  assumes "i < length ts"
    and "\<forall>j<i. empty_answer (supabase (length calls + j) (rpc_of (ts ! j)) (args_of q (ts ! j)))"
    and "resp_error (supabase (length calls + i) (rpc_of (ts ! i)) (args_of q (ts ! i))) = Some msg"
  shows "retrieve_tries q supabase calls ts =
         (calls @ take (Suc i) (map (call_of q) ts),
          Inl (rpc_error_message (rpc_of (ts ! i)) msg))"
proof -
  have "retrieve_tries q supabase (calls @ take i (map (call_of q) ts)) (ts ! i # drop (Suc i) ts) =
      (calls @ take i (map (call_of q) ts) @ [(rpc_of (ts ! i), args_of q (ts ! i))],
       Inl (rpc_error_message (rpc_of (ts ! i)) msg))"
    using assms(1,3) by (simp add: Let_def min_absorb2)
  then show ?thesis
    using retrieve_tries_at[OF assms(1,2)] take_Suc_calls[OF assms(1), of q] by simp
qed

lemma retrieve_tries_all_empty:
  assumes "\<forall>j<length ts. empty_answer (supabase (length calls + j) (rpc_of (ts ! j)) (args_of q (ts ! j)))"
  shows "retrieve_tries q supabase calls ts = (calls @ map (call_of q) ts, Inr [])"
  using retrieve_tries_skip[of "length ts" ts supabase calls q] assms by simp

lemma retrieve_tries_prefix:
  "\<exists>n\<le>length ts. fst (retrieve_tries q supabase calls ts) = calls @ take n (map (call_of q) ts)"
proof (induction ts arbitrary: calls)
  case Nil
  show ?case by simp
next
  case (Cons t ts)
  let ?R = "supabase (length calls) (rpc_of t) (args_of q t)"
  show ?case
  proof (cases "empty_answer ?R")
    case True
    then have "retrieve_tries q supabase calls (t # ts) =
        retrieve_tries q supabase (calls @ [call_of q t]) ts"
      by (auto simp: empty_answer_def call_of_def Let_def)
    moreover from Cons.IH[of "calls @ [call_of q t]"] obtain n where
      "n \<le> length ts"
      "fst (retrieve_tries q supabase (calls @ [call_of q t]) ts) =
         (calls @ [call_of q t]) @ take n (map (call_of q) ts)" by blast
    ultimately have "Suc n \<le> length (t # ts) \<and>
        fst (retrieve_tries q supabase calls (t # ts)) =
          calls @ take (Suc n) (map (call_of q) (t # ts))" by simp
    then show ?thesis by blast
  next
    case False
    then have "fst (retrieve_tries q supabase calls (t # ts)) = calls @ [call_of q t]"
      by (auto simp: empty_answer_def call_of_def Let_def split: option.splits)
    then have "Suc 0 \<le> length (t # ts) \<and>
        fst (retrieve_tries q supabase calls (t # ts)) =
          calls @ take (Suc 0) (map (call_of q) (t # ts))" by simp
    then show ?thesis by blast
  qed
qed


text \<open>
  C7. The default tiers are \<open>{topK 8, no threshold}\<close>, \<open>{topK 12, threshold 0.3}\<close>,
  \<open>{topK 20, threshold 0.2}\<close>, and leaving the tiers out takes them. The calls made are
  always an initial stretch of the tiers' calls, in order and one call per tier. When tier
  \<open>i\<close> is the first to return matches, every earlier tier having answered empty, these
  matches are returned and no later tier is called; in particular, when the first
  default tier returns a match, the only call made is the first one. When every tier
  answers empty, the result is the empty sequence, and no error.
\<close>

theorem retrieval_tiers_in_order:
  "DEFAULT_TRIES =
     [\<lparr>topK = 8, threshold = None\<rparr>, \<lparr>topK = 12, threshold = Some (3 / 10)\<rparr>,
      \<lparr>topK = 20, threshold = Some (2 / 10)\<rparr>] \<and>
   retrieveWithFallback q supabase None = retrieveWithFallback q supabase (Some DEFAULT_TRIES) \<and>
   (\<exists>n\<le>length tries.
      fst (retrieveWithFallback q supabase (Some tries)) = take n (map (call_of q) tries)) \<and>
   (i < length tries \<and> (\<forall>j<i. empty_answer (tier_response supabase q tries j)) \<and>
    resp_error (tier_response supabase q tries i) = None \<and>
    resp_data (tier_response supabase q tries i) = Some matches \<and> matches \<noteq> [] \<longrightarrow>
      retrieveWithFallback q supabase (Some tries) =
        (take (Suc i) (map (call_of q) tries), Inr matches)) \<and>
   (resp_error (supabase 0 ''match_document_sections_topk'' (Topk_args q 8)) = None \<and>
    resp_data (supabase 0 ''match_document_sections_topk'' (Topk_args q 8)) = Some matches \<and>
    matches \<noteq> [] \<longrightarrow>
      retrieveWithFallback q supabase None =
        ([(''match_document_sections_topk'', Topk_args q 8)], Inr matches)) \<and>
   ((\<forall>j<length tries. empty_answer (tier_response supabase q tries j)) \<longrightarrow>
      retrieveWithFallback q supabase (Some tries) = (map (call_of q) tries, Inr []))"
proof -
  have a: "DEFAULT_TRIES =
     [\<lparr>topK = 8, threshold = None\<rparr>, \<lparr>topK = 12, threshold = Some (3 / 10)\<rparr>,
      \<lparr>topK = 20, threshold = Some (2 / 10)\<rparr>]"
    by (simp add: DEFAULT_TRIES_def)
  have b: "retrieveWithFallback q supabase None = retrieveWithFallback q supabase (Some DEFAULT_TRIES)"
    by (simp add: retrieveWithFallback_def)
  have c: "\<exists>n\<le>length tries.
      fst (retrieveWithFallback q supabase (Some tries)) = take n (map (call_of q) tries)"
    using retrieve_tries_prefix[of tries q supabase "[]"]
    by (simp add: retrieveWithFallback_def)
  have d: "i < length tries \<and> (\<forall>j<i. empty_answer (tier_response supabase q tries j)) \<and>
    resp_error (tier_response supabase q tries i) = None \<and>
    resp_data (tier_response supabase q tries i) = Some matches \<and> matches \<noteq> [] \<longrightarrow>
      retrieveWithFallback q supabase (Some tries) =
        (take (Suc i) (map (call_of q) tries), Inr matches)"
    using retrieve_tries_match[of i tries supabase "[]" q matches]
    by (simp add: retrieveWithFallback_def tier_response_def)
  have e: "resp_error (supabase 0 ''match_document_sections_topk'' (Topk_args q 8)) = None \<and>
    resp_data (supabase 0 ''match_document_sections_topk'' (Topk_args q 8)) = Some matches \<and>
    matches \<noteq> [] \<longrightarrow>
      retrieveWithFallback q supabase None =
        ([(''match_document_sections_topk'', Topk_args q 8)], Inr matches)"
    by (simp add: retrieveWithFallback_def DEFAULT_TRIES_def rpc_of_def args_of_def Let_def)
  have f: "(\<forall>j<length tries. empty_answer (tier_response supabase q tries j)) \<longrightarrow>
      retrieveWithFallback q supabase (Some tries) = (map (call_of q) tries, Inr [])"
    using retrieve_tries_all_empty[of tries supabase "[]" q]
    by (simp add: retrieveWithFallback_def tier_response_def)
  from a b c d e f show ?thesis by (intro conjI)
qed

text \<open>
  A backend whose second call returns one match and whose other calls return none, and a
  backend that never returns a match.
\<close>

theorem retrieval_tiers_in_order_witness:
  "retrieveWithFallback [1]
     (\<lambda>n rpc args. \<lparr>resp_data = (if n = 1 then Some [\<lparr>match_id = 7, match_document_id = 1,
          match_section_content = [0x48], match_similarity = 1 / 2, match_meta = []\<rparr>] else Some []),
        resp_error = None\<rparr>) (Some DEFAULT_TRIES) =
     ([(''match_document_sections_topk'', Topk_args [1] 8),
       (''match_filtered_document_sections'', Filtered_args [1] (3 / 10) 12)],
      Inr [\<lparr>match_id = 7, match_document_id = 1, match_section_content = [0x48],
            match_similarity = 1 / 2, match_meta = []\<rparr>]) \<and>
   retrieveWithFallback [1] (\<lambda>n rpc args. \<lparr>resp_data = None, resp_error = None\<rparr>)
     (Some DEFAULT_TRIES) =
     ([(''match_document_sections_topk'', Topk_args [1] 8),
       (''match_filtered_document_sections'', Filtered_args [1] (3 / 10) 12),
       (''match_filtered_document_sections'', Filtered_args [1] (2 / 10) 20)], Inr [])"
proof -
  let ?m = "\<lparr>match_id = 7, match_document_id = 1, match_section_content = [0x48],
             match_similarity = 1 / 2, match_meta = []\<rparr>"
  let ?sb = "\<lambda>(n::nat) (rpc::string) (args::rpc_args).
      \<lparr>resp_data = (if n = 1 then Some [?m] else Some []), resp_error = None\<rparr>"
  let ?none = "\<lambda>(n::nat) (rpc::string) (args::rpc_args).
      \<lparr>resp_data = None :: DocumentSectionMatch list option, resp_error = None\<rparr>"
  have calls: "map (call_of [1]) DEFAULT_TRIES =
      [(''match_document_sections_topk'', Topk_args [1] 8),
       (''match_filtered_document_sections'', Filtered_args [1] (3 / 10) 12),
       (''match_filtered_document_sections'', Filtered_args [1] (2 / 10) 20)]"
    by (simp add: DEFAULT_TRIES_def call_of_def rpc_of_def args_of_def)
  have len: "(1::nat) < length DEFAULT_TRIES" by (simp add: DEFAULT_TRIES_def)
  have before: "\<forall>j<1. empty_answer (tier_response ?sb [1] DEFAULT_TRIES j)"
    by (simp add: empty_answer_def tier_response_def)
  have at: "resp_error (tier_response ?sb [1] DEFAULT_TRIES 1) = None"
    "resp_data (tier_response ?sb [1] DEFAULT_TRIES 1) = Some [?m]" "[?m] \<noteq> []"
    by (simp_all add: tier_response_def)
  have first: "retrieveWithFallback [1] ?sb (Some DEFAULT_TRIES) =
      (take (Suc 1) (map (call_of [1]) DEFAULT_TRIES), Inr [?m])"
    using retrieval_tiers_in_order[of "[1]" ?sb DEFAULT_TRIES 1 "[?m]"] len before at by blast
  have empty: "\<forall>j<length DEFAULT_TRIES. empty_answer (tier_response ?none [1] DEFAULT_TRIES j)"
    by (simp add: empty_answer_def tier_response_def)
  have second: "retrieveWithFallback [1] ?none (Some DEFAULT_TRIES) =
      (map (call_of [1]) DEFAULT_TRIES, Inr [])"
    using retrieval_tiers_in_order[of "[1]" ?none DEFAULT_TRIES 0 "[]"] empty by blast
  from first second show ?thesis by (simp add: calls)
qed

text \<open>
  C8. When the call of tier \<open>i\<close> returns an error, every earlier tier having answered
  empty, the error is thrown at once, with the name of the remote procedure and the
  message of the error: the calls made end with the one call of tier \<open>i\<close> (no retry, no
  later tier), and the run does not return a sequence of matches.
\<close>

theorem retrieval_error_propagates:
  assumes "i < length tries"
    and "\<forall>j<i. empty_answer (tier_response supabase q tries j)"
    and "resp_error (tier_response supabase q tries i) = Some msg"
  shows "retrieveWithFallback q supabase (Some tries) =
           (take (Suc i) (map (call_of q) tries),
            Inl (rpc_error_message (rpc_of (tries ! i)) msg))"
  using retrieve_tries_error[of i tries supabase "[]" q msg] assms
  by (simp add: retrieveWithFallback_def tier_response_def)

text \<open>A backend whose second call fails.\<close>

theorem retrieval_error_propagates_witness:
  "retrieveWithFallback [1]
     (\<lambda>n rpc args. \<lparr>resp_data = None, resp_error = (if n = 1 then Some ''timeout'' else None)\<rparr>)
     (Some DEFAULT_TRIES) =
     ([(''match_document_sections_topk'', Topk_args [1] 8),
       (''match_filtered_document_sections'', Filtered_args [1] (3 / 10) 12)],
      Inl ''RPC error (match_filtered_document_sections): timeout'')"
proof -
  let ?sb = "\<lambda>(n::nat) (rpc::string) (args::rpc_args).
      \<lparr>resp_data = None :: DocumentSectionMatch list option,
       resp_error = (if n = 1 then Some ''timeout'' else None)\<rparr>"
  have calls: "take (Suc 1) (map (call_of [1]) DEFAULT_TRIES) =
      [(''match_document_sections_topk'', Topk_args [1] 8),
       (''match_filtered_document_sections'', Filtered_args [1] (3 / 10) 12)]"
    by (simp add: DEFAULT_TRIES_def call_of_def rpc_of_def args_of_def)
  have msg: "rpc_error_message (rpc_of (DEFAULT_TRIES ! 1)) ''timeout'' =
      ''RPC error (match_filtered_document_sections): timeout''"
    by (simp add: DEFAULT_TRIES_def rpc_of_def rpc_error_message_def)
  have len: "(1::nat) < length DEFAULT_TRIES" by (simp add: DEFAULT_TRIES_def)
  have before: "\<forall>j<1. empty_answer (tier_response ?sb [1] DEFAULT_TRIES j)"
    by (simp add: empty_answer_def tier_response_def)
  have at: "resp_error (tier_response ?sb [1] DEFAULT_TRIES 1) = Some ''timeout''"
    by (simp add: tier_response_def)
  from retrieval_error_propagates[OF len before at] show ?thesis
    by (simp only: calls msg)
qed

section \<open>Ingestion runs\<close>

lemma take_as_nths: "k \<le> length xs \<Longrightarrow> map ((!) xs) [0..<k] = take k xs"
  by (induction k) (simp_all add: take_Suc_conv_app_nth)

lemma process_chunks_step:
  assumes "index < length chunks" and "chunk_proceeds c d chunks index"
  shows "process_chunks c d chunks index db =
         process_chunks c d chunks (Suc index)
           (db\<lparr>embedding_requests := embedding_requests db @ [chunks ! index],
               document_sections := document_sections db @ stored_for c d chunks index\<rparr>)"
  using assms
  by (subst process_chunks.simps)
     (auto simp: chunk_proceeds_def stored_for_def Let_def split: sum.splits option.splits)

lemma process_chunks_run:
  assumes "k \<le> length chunks"
    and "\<forall>j. index \<le> j \<and> j < k \<longrightarrow> chunk_proceeds c d chunks j"
    and "index \<le> k"
  shows "process_chunks c d chunks index db =
         process_chunks c d chunks k
           (db\<lparr>embedding_requests := embedding_requests db @ map ((!) chunks) [index..<k],
               document_sections :=
                 document_sections db @ concat (map (stored_for c d chunks) [index..<k])\<rparr>)"
  using assms
proof (induction "k - index" arbitrary: index db)
  case 0
  then have "index = k" by simp
  then show ?case by simp
next
  case (Suc n)
  then have lt: "index < k" by simp
  then have upt: "[index..<k] = index # [Suc index..<k]" by (simp add: upt_conv_Cons)
  have here: "chunk_proceeds c d chunks index" using Suc.prems(2) lt by simp
  have "index < length chunks" using lt Suc.prems(1) by simp
  note step = process_chunks_step[OF this here, of db]
  have "n = k - Suc index" using Suc.hyps(2) by simp
  moreover have "\<forall>j. Suc index \<le> j \<and> j < k \<longrightarrow> chunk_proceeds c d chunks j"
    using Suc.prems(2) by simp
  moreover have "Suc index \<le> k" using lt by simp
  ultimately have "process_chunks c d chunks (Suc index)
        (db\<lparr>embedding_requests := embedding_requests db @ [chunks ! index],
            document_sections := document_sections db @ stored_for c d chunks index\<rparr>) =
      process_chunks c d chunks k
        ((db\<lparr>embedding_requests := embedding_requests db @ [chunks ! index],
             document_sections := document_sections db @ stored_for c d chunks index\<rparr>)
           \<lparr>embedding_requests :=
              embedding_requests (db\<lparr>embedding_requests := embedding_requests db @ [chunks ! index],
                 document_sections := document_sections db @ stored_for c d chunks index\<rparr>) @
              map ((!) chunks) [Suc index..<k],
            document_sections :=
              document_sections (db\<lparr>embedding_requests := embedding_requests db @ [chunks ! index],
                 document_sections := document_sections db @ stored_for c d chunks index\<rparr>) @
              concat (map (stored_for c d chunks) [Suc index..<k])\<rparr>)"
    using Suc.hyps(1)[of "Suc index"] Suc.prems(1) by blast
  with step show ?case by (simp add: upt)
qed

lemma process_chunks_done:
  "process_chunks c d chunks (length chunks) db = (None, db)"
  by (subst process_chunks.simps) simp

lemma process_chunks_insert_fails:
  assumes "k < length chunks"
    and "embeddings_create c k (chunks ! k) = Inr (Some emb)"
    and "sections_insert c (section_for d k (chunks ! k) emb) = Some msg"
  shows "process_chunks c d chunks k db =
         (Some (section_error_text msg),
          db\<lparr>embedding_requests := embedding_requests db @ [chunks ! k]\<rparr>)"
  using assms by (subst process_chunks.simps) (simp add: Let_def)

lemma process_chunks_all:
  assumes "\<forall>j<length chunks. chunk_proceeds c d chunks j"
  shows "process_chunks c d chunks 0 db =
         (None, db\<lparr>embedding_requests := embedding_requests db @ chunks,
                   document_sections :=
                     document_sections db @ concat (map (stored_for c d chunks) [0..<length chunks])\<rparr>)"
  using process_chunks_run[of "length chunks" chunks 0 c d db] assms
  by (simp add: process_chunks_done take_as_nths)

lemma process_chunks_stops:
  assumes "k < length chunks"
    and "\<forall>j<k. chunk_proceeds c d chunks j"
    and "embeddings_create c k (chunks ! k) = Inr (Some emb)"
    and "sections_insert c (section_for d k (chunks ! k) emb) = Some msg"
  shows "process_chunks c d chunks 0 db =
         (Some (section_error_text msg),
          db\<lparr>embedding_requests := embedding_requests db @ take (Suc k) chunks,
             document_sections :=
               document_sections db @ concat (map (stored_for c d chunks) [0..<k])\<rparr>)"
proof -
  have "process_chunks c d chunks 0 db =
      process_chunks c d chunks k
        (db\<lparr>embedding_requests := embedding_requests db @ map ((!) chunks) [0..<k],
            document_sections :=
              document_sections db @ concat (map (stored_for c d chunks) [0..<k])\<rparr>)"
    using process_chunks_run[of k chunks 0 c d db] assms(1,2) by simp
  then show ?thesis
    using assms(1) take_as_nths[of k chunks]
    by (simp add: process_chunks_insert_fails[OF assms(1,3,4)] take_Suc_conv_app_nth)
qed

subsection \<open>The worker on the shared utilities\<close>

lemma pdf_run_download: "storage_download (pdf_run t ins) path = Some []"
  by (simp add: pdf_run_def)

lemma utils_run_extracted:
  "extracted_text_utils c (utils_run t) buffer ''application/pdf'' = sanitizeText t"
  by (simp add: utils_run_def extracted_text_utils_def extractTextFromFile_utils_def
        extractPdfTextInReadingOrder_def or_empty_def)

lemma blank_text: "sanitizeText blank = []"
  by (simp add: blank_def sanitizeText_def sanitize_char_def replace_fffd_def trim_def is_ws_def
        is_high_surrogate_def is_low_surrogate_def)

lemma hello_text: "sanitizeText hello = hello"
  by (simp add: hello_def sanitizeText_def sanitize_char_def replace_fffd_def trim_def is_ws_def
        is_high_surrogate_def is_low_surrogate_def)

lemma hello_not_blank: "length (trim hello) \<noteq> 0"
  by (simp add: hello_def trim_def is_ws_def)

lemma hello_chunks: "splitIntoChunks hello 300 = [hello]"
  by (simp add: hello_def splitIntoChunks_def sentences_of_def paragraphs_of_def is_ws_def
        is_terminal_def trim_def pack_step_def)

lemma ingest_body_utils_blank:
  assumes "storage_download c storagePath = Some buffer"
    and "length (trim (extracted_text_utils c u buffer mimetype)) = 0"
  shows "ingest_body_utils c u documentId storagePath mimetype db =
         (Some ''We could not store the vectorized sections.'', db)"
  using assms by (simp add: ingest_body_utils_def)

text \<open>
  C1, as the code has it. When the extracted text is empty or only white space after
  normalization, the worker answers 500 and sets the status of the document to \<open>error\<close>
  with the fixed message \<open>We could not store the vectorized sections.\<close>; it stops there:
  no embedding is requested and no section is stored, and the document is not ready.
\<close>

theorem blank_text_marks_error:
  assumes "storage_download c storagePath = Some buffer"
    and "length (trim (extracted_text_utils c u buffer mimetype)) = 0"
    and "documents db documentId = Some r"
  shows "POST_utils c u documentId storagePath mimetype db =
           (500,
            db\<lparr>documents := (documents db)(documentId \<mapsto>
                 r\<lparr>status := Status_error,
                   error_message := Some ''We could not store the vectorized sections.''\<rparr>)\<rparr>) \<and>
         document_sections (snd (POST_utils c u documentId storagePath mimetype db)) =
           document_sections db \<and>
         embedding_requests (snd (POST_utils c u documentId storagePath mimetype db)) =
           embedding_requests db \<and>
         map_option status (documents (snd (POST_utils c u documentId storagePath mimetype db))
           documentId) = Some Status_error"
  using ingest_body_utils_blank[OF assms(1,2), of documentId db] assms(3)
  by (simp add: POST_utils_def update_document_def)

text \<open>A queued document whose PDF has the text space, line feed, space.\<close>

theorem blank_text_marks_error_witness:
  "POST_utils (pdf_run blank (\<lambda>section. None)) (utils_run blank) 1 ''uploads/blank.pdf''
     ''application/pdf'' one_queued_document =
     (500,
      \<lparr>documents =
         [1 \<mapsto> \<lparr>status = Status_error,
                 error_message = Some ''We could not store the vectorized sections.''\<rparr>],
       document_sections = [], embedding_requests = []\<rparr>)"
proof -
  let ?c = "pdf_run blank (\<lambda>section. None)"
  let ?u = "utils_run blank"
  have d: "storage_download ?c ''uploads/blank.pdf'' = Some []"
    by (rule pdf_run_download)
  have e: "length (trim (extracted_text_utils ?c ?u [] ''application/pdf'')) = 0"
    by (simp add: utils_run_extracted blank_text trim_Nil)
  have row: "documents one_queued_document 1 =
      Some \<lparr>status = Status_queued, error_message = None\<rparr>"
    by (simp add: one_queued_document_def)
  from blank_text_marks_error[OF d e row] show ?thesis
    by (simp add: one_queued_document_def)
qed

text \<open>
  C1 as stated fails in the message: for that document the message written with the
  status \<open>error\<close> is \<open>We could not store the vectorized sections.\<close>, not
  \<open>no extractable text\<close>.
\<close>

theorem blank_text_message_differs:
  "map_option error_message
     (documents
        (snd (POST_utils (pdf_run blank (\<lambda>section. None)) (utils_run blank) 1
                ''uploads/blank.pdf'' ''application/pdf'' one_queued_document)) 1) =
     Some (Some ''We could not store the vectorized sections.'') \<and>
   map_option error_message
     (documents
        (snd (POST_utils (pdf_run blank (\<lambda>section. None)) (utils_run blank) 1
                ''uploads/blank.pdf'' ''application/pdf'' one_queued_document)) 1) \<noteq>
     Some (Some ''no extractable text'')"
proof -
  have "ingest_body_utils (pdf_run blank (\<lambda>section. None)) (utils_run blank) 1
      ''uploads/blank.pdf'' ''application/pdf'' one_queued_document =
      (Some ''We could not store the vectorized sections.'', one_queued_document)"
    by (rule ingest_body_utils_blank[OF pdf_run_download])
       (simp add: utils_run_extracted blank_text trim_Nil)
  then show ?thesis
    by (simp add: POST_utils_def update_document_def one_queued_document_def)
qed

lemma POST_utils_all_chunks_proceed:
  assumes "storage_download c storagePath = Some buffer"
    and "length (trim (extracted_text_utils c u buffer mimetype)) \<noteq> 0"
    and "chunks = splitIntoChunks (extracted_text_utils c u buffer mimetype) 300"
    and "\<forall>j<length chunks. chunk_proceeds c documentId chunks j"
  shows "ingest_body_utils c u documentId storagePath mimetype db =
         (case ready_update u of
            Some errorUpdate \<Rightarrow>
              (Some update_failed_message,
               db\<lparr>embedding_requests := embedding_requests db @ chunks,
                  document_sections :=
                    document_sections db @
                    concat (map (stored_for c documentId chunks) [0..<length chunks])\<rparr>)
          | None \<Rightarrow>
              (None,
               update_document documentId (\<lambda>r. r\<lparr>status := Status_ready\<rparr>)
                 (db\<lparr>embedding_requests := embedding_requests db @ chunks,
                    document_sections :=
                      document_sections db @
                      concat (map (stored_for c documentId chunks) [0..<length chunks])\<rparr>)))"
  using assms(1,2) process_chunks_all[OF assms(4), of db]
  by (simp add: ingest_body_utils_def Let_def assms(3) split: option.splits)

text \<open>
  C2. When every chunk lets the loop go on (no embedding request throws and no insert
  fails) and the store applies the update of the status, the worker answers 200 and the
  document ends with status \<open>ready\<close>; every chunk was sent for embedding and the sections
  of the chunks that have an embedding are stored.
\<close>

theorem processed_document_is_ready:
  assumes "storage_download c storagePath = Some buffer"
    and "length (trim (extracted_text_utils c u buffer mimetype)) \<noteq> 0"
    and "chunks = splitIntoChunks (extracted_text_utils c u buffer mimetype) 300"
    and "\<forall>j<length chunks. chunk_proceeds c documentId chunks j"
    and "ready_update u = None"
    and "documents db documentId = Some r"
  shows "POST_utils c u documentId storagePath mimetype db =
           (200,
            db\<lparr>embedding_requests := embedding_requests db @ chunks,
               document_sections :=
                 document_sections db @
                 concat (map (stored_for c documentId chunks) [0..<length chunks]),
               documents := (documents db)(documentId \<mapsto> r\<lparr>status := Status_ready\<rparr>)\<rparr>)"
  using POST_utils_all_chunks_proceed[OF assms(1,2,3,4), of db] assms(5,6)
  by (simp add: POST_utils_def update_document_def)

text \<open>
  A queued document whose PDF has the text \<open>Hello.\<close>, with every embedding request and
  every insert succeeding: it goes from \<open>queued\<close> to \<open>ready\<close>.
\<close>

theorem processed_document_is_ready_witness:
  "POST_utils (pdf_run hello (\<lambda>section. None)) (utils_run hello) 1 ''uploads/hello.pdf''
     ''application/pdf'' one_queued_document =
     (200,
      \<lparr>documents = [1 \<mapsto> \<lparr>status = Status_ready, error_message = None\<rparr>],
       document_sections =
         [\<lparr>document_id = 1, section_order = 1, section_content = hello,
           embedding = [1], meta = [(''source'', ''upload'')]\<rparr>],
       embedding_requests = [hello]\<rparr>)"
proof -
  let ?c = "pdf_run hello (\<lambda>section. None)"
  let ?u = "utils_run hello"
  have t: "extracted_text_utils ?c ?u [] ''application/pdf'' = hello"
    by (simp add: utils_run_extracted hello_text)
  have d: "storage_download ?c ''uploads/hello.pdf'' = Some []"
    by (rule pdf_run_download)
  have e: "length (trim (extracted_text_utils ?c ?u [] ''application/pdf'')) \<noteq> 0"
    unfolding t by (rule hello_not_blank)
  have ch: "[hello] = splitIntoChunks (extracted_text_utils ?c ?u [] ''application/pdf'') 300"
    by (simp only: t hello_chunks)
  have p: "\<forall>j<length [hello]. chunk_proceeds ?c 1 [hello] j"
    by (simp add: chunk_proceeds_def pdf_run_def)
  have up: "ready_update ?u = None"
    by (simp add: utils_run_def)
  have row: "documents one_queued_document 1 =
      Some \<lparr>status = Status_queued, error_message = None\<rparr>"
    by (simp add: one_queued_document_def)
  from processed_document_is_ready[OF d e ch p up row] show ?thesis
    by (simp add: stored_for_def section_for_def pdf_run_def one_queued_document_def)
qed

text \<open>
  When the store refuses the update to \<open>ready\<close>, the worker throws and the document ends
  with status \<open>error\<close>; and a failed insert stops this copy as it stops the other.
\<close>

lemma refused_update_marks_error:
  assumes "storage_download c storagePath = Some buffer"
    and "length (trim (extracted_text_utils c u buffer mimetype)) \<noteq> 0"
    and "chunks = splitIntoChunks (extracted_text_utils c u buffer mimetype) 300"
    and "\<forall>j<length chunks. chunk_proceeds c documentId chunks j"
    and "ready_update u = Some errorUpdate"
    and "documents db documentId = Some r"
  shows "POST_utils c u documentId storagePath mimetype db =
           (500,
            db\<lparr>embedding_requests := embedding_requests db @ chunks,
               document_sections :=
                 document_sections db @
                 concat (map (stored_for c documentId chunks) [0..<length chunks]),
               documents := (documents db)(documentId \<mapsto>
                 r\<lparr>status := Status_error, error_message := Some update_failed_message\<rparr>)\<rparr>)"
  using POST_utils_all_chunks_proceed[OF assms(1,2,3,4), of db] assms(5,6)
  by (simp add: POST_utils_def update_document_def)

lemma failed_insert_stops_worker_on_utils:
  assumes "storage_download c storagePath = Some buffer"
    and "length (trim (extracted_text_utils c u buffer mimetype)) \<noteq> 0"
    and "chunks = splitIntoChunks (extracted_text_utils c u buffer mimetype) 300"
    and "k < length chunks"
    and "\<forall>j<k. chunk_proceeds c documentId chunks j"
    and "embeddings_create c k (chunks ! k) = Inr (Some emb)"
    and "sections_insert c (section_for documentId k (chunks ! k) emb) = Some msg"
    and "documents db documentId = Some r"
  shows "POST_utils c u documentId storagePath mimetype db =
         (500,
          db\<lparr>embedding_requests := embedding_requests db @ take (Suc k) chunks,
             document_sections :=
               document_sections db @ concat (map (stored_for c documentId chunks) [0..<k]),
             documents := (documents db)(documentId \<mapsto>
               r\<lparr>status := Status_error, error_message := Some (section_error_text msg)\<rparr>)\<rparr>)"
  using assms(1,2,8) process_chunks_stops[OF assms(4,5,6,7), of db]
  by (simp add: POST_utils_def ingest_body_utils_def Let_def assms(3)[symmetric]
        update_document_def)

subsection \<open>The worker with inline helpers\<close>

text \<open>
  The copy in src/app/api/ingest-worker/route.ts has the same loop and the same \<open>catch\<close>
  block, so a failed insert ends it in the same way. It has no branch for a blank text
  and no update to \<open>ready\<close>: on a blank text, and when every chunk lets the loop go on, it
  answers 200 and leaves the \<open>documents\<close> table as it was.
\<close>

lemma pdf_run_extracted:
  "extracted_text (pdf_run t ins) buffer ''application/pdf'' = sanitizeText t"
  by (simp add: pdf_run_def extracted_text_def extractTextFromFile_def or_empty_def)

lemma POST_blank_text:
  assumes "storage_download c storagePath = Some buffer"
    and "length (trim (extracted_text c buffer mimetype)) = 0"
  shows "POST c documentId storagePath mimetype db = (200, db)"
  using assms by (simp add: POST_def ingest_body_def)

lemma POST_all_chunks_proceed:
  assumes "storage_download c storagePath = Some buffer"
    and "length (trim (extracted_text c buffer mimetype)) \<noteq> 0"
    and "chunks = splitIntoChunks (extracted_text c buffer mimetype) 300"
    and "\<forall>j<length chunks. chunk_proceeds c documentId chunks j"
  shows "POST c documentId storagePath mimetype db =
         (200, db\<lparr>embedding_requests := embedding_requests db @ chunks,
                  document_sections :=
                    document_sections db @
                    concat (map (stored_for c documentId chunks) [0..<length chunks])\<rparr>)"
  using assms(1,2) process_chunks_all[OF assms(4), of db]
  by (simp add: POST_def ingest_body_def Let_def assms(3))

text \<open>
  C9. Let the insert of the section of chunk \<open>k\<close> fail, every chunk before \<open>k\<close> having let
  the loop go on. Then the handler answers 500 and the document has status \<open>error\<close>, with
  the message of the failure (or the fixed message when that is empty). The run stops at
  once: the embedding requests sent are those of the chunks up to \<open>k\<close>. The sections
  stored for the chunks before \<open>k\<close> are still in the table: nothing is rolled back.
\<close>

theorem persistence_failure_is_fatal:
  assumes "storage_download c storagePath = Some buffer"
    and "length (trim (extracted_text c buffer mimetype)) \<noteq> 0"
    and "chunks = splitIntoChunks (extracted_text c buffer mimetype) 300"
    and "k < length chunks"
    and "\<forall>j<k. chunk_proceeds c documentId chunks j"
    and "embeddings_create c k (chunks ! k) = Inr (Some emb)"
    and "sections_insert c (section_for documentId k (chunks ! k) emb) = Some msg"
    and "documents db documentId = Some r"
  shows "POST c documentId storagePath mimetype db =
         (500,
          db\<lparr>embedding_requests := embedding_requests db @ take (Suc k) chunks,
             document_sections :=
               document_sections db @ concat (map (stored_for c documentId chunks) [0..<k]),
             documents := (documents db)(documentId \<mapsto>
               r\<lparr>status := Status_error, error_message := Some (section_error_text msg)\<rparr>)\<rparr>)"
  using assms(1,2,8) process_chunks_stops[OF assms(4,5,6,7), of db]
  by (simp add: POST_def ingest_body_def Let_def assms(3)[symmetric] update_document_def)

text \<open>
  A queued document with three chunks, where the insert of the second section fails:
  chunk 2 of 3.
\<close>

lemma three_chunks:
  "splitIntoChunks three_sentences 300 =
     [replicate 149 0x61 @ [0x2E], replicate 149 0x62 @ [0x2E], replicate 149 0x63 @ [0x2E]]"
  by code_simp

lemma three_sanitized: "sanitizeText three_sentences = three_sentences"
  by code_simp

lemma three_not_blank: "length (trim three_sentences) \<noteq> 0"
  by code_simp

theorem persistence_failure_is_fatal_witness:
  "POST (pdf_run three_sentences
           (\<lambda>section. if section_order section = 2 then Some ''insert failed'' else None))
     1 ''uploads/three.pdf'' ''application/pdf'' one_queued_document =
     (500,
      \<lparr>documents = [1 \<mapsto> \<lparr>status = Status_error, error_message = Some ''insert failed''\<rparr>],
       document_sections =
         [\<lparr>document_id = 1, section_order = 1,
           section_content = replicate 149 0x61 @ [0x2E],
           embedding = [1], meta = [(''source'', ''upload'')]\<rparr>],
       embedding_requests = [replicate 149 0x61 @ [0x2E], replicate 149 0x62 @ [0x2E]]\<rparr>)"
proof -
  let ?c = "pdf_run three_sentences
      (\<lambda>section. if section_order section = 2 then Some ''insert failed'' else None)"
  let ?r = "\<lparr>status = Status_queued, error_message = None\<rparr>"
  let ?chunks = "[replicate 149 0x61 @ [0x2E], replicate 149 0x62 @ [0x2E],
                  replicate 149 0x63 @ [0x2E]] :: js_string list"
  have t: "extracted_text ?c [] ''application/pdf'' = three_sentences"
    by (simp add: pdf_run_extracted three_sanitized)
  have d: "storage_download ?c ''uploads/three.pdf'' = Some []"
    by (rule pdf_run_download)
  have e: "length (trim (extracted_text ?c [] ''application/pdf'')) \<noteq> 0"
    unfolding t by (rule three_not_blank)
  have ch: "?chunks = splitIntoChunks (extracted_text ?c [] ''application/pdf'') 300"
    by (simp only: t three_chunks)
  have k: "(1::nat) < length ?chunks" by simp
  have p: "\<forall>j<1. chunk_proceeds ?c 1 ?chunks j"
    by (simp add: chunk_proceeds_def section_for_def pdf_run_def)
  have emb: "embeddings_create ?c 1 (?chunks ! 1) = Inr (Some [1])"
    by (simp add: pdf_run_def)
  have ins: "sections_insert ?c (section_for 1 1 (?chunks ! 1) [1]) = Some ''insert failed''"
    by (simp add: section_for_def pdf_run_def)
  have row: "documents one_queued_document 1 = Some ?r"
    by (simp add: one_queued_document_def)
  from persistence_failure_is_fatal[OF d e ch k p emb ins row] show ?thesis
    by (simp add: stored_for_def section_for_def pdf_run_def section_error_text_def
          one_queued_document_def)
qed

end
